theory Spec2Isabelle
  imports Complex_Main
begin

section \<open>Numbers of the analyser\<close>

text \<open>
  The analyser of \<^verbatim>\<open>src/js/prosody.js\<close> computes with JavaScript numbers. A number is
  modelled as an exact real, or one of the three special values that decide the control
  flow of the code: \<open>NaN\<close> (every comparison with it is false), \<open>+Infinity\<close> and
  \<open>-Infinity\<close>. Rounding (of doubles, and of the \<^verbatim>\<open>Float32Array\<close> stores) and the sign
  of zero are outside the model: a zero divisor counts as \<open>+0\<close>. Array lengths and loop
  indices are natural numbers.
\<close>

datatype jsnum = Num real | PInf | NInf | NaN

fun jneg :: "jsnum \<Rightarrow> jsnum" where
  "jneg (Num a) = Num (- a)"
| "jneg PInf = NInf"
| "jneg NInf = PInf"
| "jneg NaN = NaN"

fun jadd :: "jsnum \<Rightarrow> jsnum \<Rightarrow> jsnum" where
  "jadd NaN y = NaN"
| "jadd x NaN = NaN"
| "jadd (Num a) (Num b) = Num (a + b)"
| "jadd PInf NInf = NaN"
| "jadd NInf PInf = NaN"
| "jadd PInf y = PInf"
| "jadd x PInf = PInf"
| "jadd NInf y = NInf"
| "jadd x NInf = NInf"

definition jsub :: "jsnum \<Rightarrow> jsnum \<Rightarrow> jsnum" where
  "jsub x y = jadd x (jneg y)"

fun jmul :: "jsnum \<Rightarrow> jsnum \<Rightarrow> jsnum" where
  "jmul NaN y = NaN"
| "jmul x NaN = NaN"
| "jmul (Num a) (Num b) = Num (a * b)"
| "jmul (Num a) PInf = (if a = 0 then NaN else if 0 < a then PInf else NInf)"
| "jmul (Num a) NInf = (if a = 0 then NaN else if 0 < a then NInf else PInf)"
| "jmul PInf (Num b) = (if b = 0 then NaN else if 0 < b then PInf else NInf)"
| "jmul NInf (Num b) = (if b = 0 then NaN else if 0 < b then NInf else PInf)"
| "jmul PInf PInf = PInf"
| "jmul PInf NInf = NInf"
| "jmul NInf PInf = NInf"
| "jmul NInf NInf = PInf"

fun jdiv :: "jsnum \<Rightarrow> jsnum \<Rightarrow> jsnum" where
  "jdiv NaN y = NaN"
| "jdiv x NaN = NaN"
| "jdiv (Num a) (Num b) =
     (if b = 0 then (if a = 0 then NaN else if 0 < a then PInf else NInf) else Num (a / b))"
| "jdiv (Num a) PInf = Num 0"
| "jdiv (Num a) NInf = Num 0"
| "jdiv PInf (Num b) = (if b < 0 then NInf else PInf)"
| "jdiv NInf (Num b) = (if b < 0 then PInf else NInf)"
| "jdiv PInf PInf = NaN"
| "jdiv PInf NInf = NaN"
| "jdiv NInf PInf = NaN"
| "jdiv NInf NInf = NaN"

text \<open>The comparison \<^verbatim>\<open><\<close>; \<^verbatim>\<open>a > b\<close> is \<open>jlt b a\<close>.\<close>

fun jlt :: "jsnum \<Rightarrow> jsnum \<Rightarrow> bool" where
  "jlt NaN y = False"
| "jlt x NaN = False"
| "jlt (Num a) (Num b) = (a < b)"
| "jlt x NInf = False"
| "jlt NInf y = True"
| "jlt PInf y = False"
| "jlt x PInf = True"

definition jgt :: "jsnum \<Rightarrow> jsnum \<Rightarrow> bool" where
  "jgt x y = jlt y x"

text \<open>\<^verbatim>\<open>a >= b\<close>: false when either side is \<open>NaN\<close>.\<close>

definition jge :: "jsnum \<Rightarrow> jsnum \<Rightarrow> bool" where
  "jge x y = (x \<noteq> NaN \<and> y \<noteq> NaN \<and> \<not> jlt x y)"

text \<open>Truthiness of a number, and \<^verbatim>\<open>a || b\<close> on numbers.\<close>

definition truthy :: "jsnum \<Rightarrow> bool" where
  "truthy x = (x \<noteq> NaN \<and> x \<noteq> Num 0)"

definition orElse :: "jsnum \<Rightarrow> jsnum \<Rightarrow> jsnum" where
  "orElse x y = (if truthy x then x else y)"

fun Math_abs :: "jsnum \<Rightarrow> jsnum" where
  "Math_abs (Num a) = Num \<bar>a\<bar>"
| "Math_abs PInf = PInf"
| "Math_abs NInf = PInf"
| "Math_abs NaN = NaN"

text \<open>
  \<^verbatim>\<open>Math.min(...)\<close> and \<^verbatim>\<open>Math.max(...)\<close> take any number of arguments: they start
  from \<open>+Infinity\<close> (\<open>-Infinity\<close>) and answer \<open>NaN\<close> as soon as an argument is \<open>NaN\<close>.
\<close>

definition jmin2 :: "jsnum \<Rightarrow> jsnum \<Rightarrow> jsnum" where
  "jmin2 lowest x = (if lowest = NaN \<or> x = NaN then NaN else if jlt x lowest then x else lowest)"

definition jmax2 :: "jsnum \<Rightarrow> jsnum \<Rightarrow> jsnum" where
  "jmax2 highest x = (if highest = NaN \<or> x = NaN then NaN else if jlt highest x then x else highest)"

definition Math_min :: "jsnum list \<Rightarrow> jsnum" where
  "Math_min xs = foldl jmin2 PInf xs"

definition Math_max :: "jsnum list \<Rightarrow> jsnum" where
  "Math_max xs = foldl jmax2 NInf xs"

text \<open>Reading an array: out of range the value is \<^verbatim>\<open>undefined\<close>, which is \<open>NaN\<close> in arithmetic.\<close>

definition elemAt :: "jsnum list \<Rightarrow> nat \<Rightarrow> jsnum" where
  "elemAt xs i = (if i < length xs then xs ! i else NaN)"

section \<open>The comparator\<close>

subsection \<open>Helpers: mean, resample, normalize\<close>

text \<open>\<^verbatim>\<open>arr.reduce((a, b) => a + b, 0)\<close>\<close>

definition sumArr :: "jsnum list \<Rightarrow> jsnum" where
  "sumArr arr = foldl jadd (Num 0) arr"

definition mean :: "jsnum list \<Rightarrow> jsnum" where
  "mean arr = (if length arr = 0 then Num 0 else jdiv (sumArr arr) (Num (real (length arr))))"

definition resample :: "jsnum list \<Rightarrow> nat \<Rightarrow> jsnum list" where
  "resample arr targetLen =
     (if length arr = targetLen then arr
      else
        let ratio = real (length arr) / real targetLen in
        map (\<lambda>i.
              let srcIdx = real i * ratio;
                  lower = nat \<lfloor>srcIdx\<rfloor>;
                  upper = min (lower + 1) (length arr - 1);
                  frac = srcIdx - real lower
              in jadd (jmul (elemAt arr lower) (Num (1 - frac))) (jmul (elemAt arr upper) (Num frac)))
            [0..<targetLen])"

definition normalize :: "jsnum list \<Rightarrow> jsnum list" where
  "normalize arr =
     (let mn = Math_min arr;
          mx = Math_max arr;
          rangeV = orElse (jsub mx mn) (Num 1)
      in map (\<lambda>v. jdiv (jsub v mn) rangeV) arr)"

subsection \<open>Dynamic time warping\<close>

text \<open>
  The matrix \<^verbatim>\<open>dtw\<close> has \<open>n + 1\<close> rows of \<open>m + 1\<close> cells, all \<open>Infinity\<close> but
  \<^verbatim>\<open>dtw[0][0] = 0\<close>. The nested iteration writes the cells \<open>(i, j)\<close> for \<open>i = 1..n\<close>,
  \<open>j = 1..m\<close> in row order; the matrix is the state of both.
\<close>

definition dtwInit :: "nat \<Rightarrow> nat \<Rightarrow> jsnum list list" where
  "dtwInit n m = (replicate (n + 1) (replicate (m + 1) PInf))[0 := (replicate (m + 1) PInf)[0 := Num 0]]"

definition dtwCell :: "jsnum list \<Rightarrow> jsnum list \<Rightarrow> nat \<Rightarrow> nat \<Rightarrow> jsnum list list \<Rightarrow> jsnum list list" where
  "dtwCell ns1 ns2 i j dtw =
     (let cost = Math_abs (jsub (elemAt ns1 (i - 1)) (elemAt ns2 (j - 1)))
      in dtw[i := (dtw ! i)[j := jadd cost
               (Math_min [dtw ! (i - 1) ! j, dtw ! i ! (j - 1), dtw ! (i - 1) ! (j - 1)])]])"

definition dtwRow :: "jsnum list \<Rightarrow> jsnum list \<Rightarrow> nat \<Rightarrow> nat \<Rightarrow> jsnum list list \<Rightarrow> jsnum list list" where
  "dtwRow ns1 ns2 m i dtw = fold (\<lambda>j d. dtwCell ns1 ns2 i j d) [1..<Suc m] dtw"

definition dtwFill :: "jsnum list \<Rightarrow> jsnum list \<Rightarrow> nat \<Rightarrow> nat \<Rightarrow> jsnum list list \<Rightarrow> jsnum list list" where
  "dtwFill ns1 ns2 n m dtw = fold (\<lambda>i d. dtwRow ns1 ns2 m i d) [1..<Suc n] dtw"

definition dtwSimilarity :: "jsnum list \<Rightarrow> jsnum list \<Rightarrow> jsnum" where
  "dtwSimilarity seq1 seq2 =
     (if length seq1 = 0 \<or> length seq2 = 0 then Num 0
      else
        let n = min (length seq1) 100;
            m = min (length seq2) 100;
            s1 = resample seq1 n;
            s2 = resample seq2 m;
            ns1 = normalize s1;
            ns2 = normalize s2;
            dtw = dtwFill ns1 ns2 n m (dtwInit n m);
            maxDist = max n m;
            similarity = jsub (Num 1) (Math_min [Num 1, jdiv (dtw ! n ! m) (Num (real maxDist))])
        in similarity)"

subsection \<open>Feature bundles and scores\<close>

record f0Contour =
  f0_values :: "jsnum list"
  f0_times :: "jsnum list"
  f0_frameRate :: jsnum

record formantSeries =
  fs_values :: "jsnum list"
  fs_mean :: jsnum

record formantContour =
  f1 :: formantSeries
  f2 :: formantSeries
  f3 :: formantSeries
  fm_times :: "jsnum list"

record intensityContour =
  in_values :: "jsnum list"
  in_times :: "jsnum list"
  in_mean :: jsnum
  in_range :: jsnum

record speakingRateEstimate =
  syllablesPerSecond :: jsnum
  estimatedSyllables :: nat
  sr_duration :: jsnum

record pitchRangeStats =
  pr_min :: jsnum
  pr_max :: jsnum
  pr_mean :: jsnum
  pr_variance :: jsnum

text \<open>The bundle of \<^verbatim>\<open>analyzeAudio\<close>; \<^verbatim>\<open>pitchRange: null\<close> is \<open>None\<close>.\<close>

record features =
  f0 :: f0Contour
  formants :: formantContour
  intensity :: intensityContour
  duration :: jsnum
  speakingRate :: speakingRateEstimate
  pitchRange :: "pitchRangeStats option"

record scores =
  score_f0 :: jsnum
  score_formants :: jsnum
  score_intensity :: jsnum
  score_speakingRate :: jsnum
  score_pitchRange :: jsnum
  score_duration :: jsnum
  score_overall :: jsnum

text \<open>\<^verbatim>\<open>values.filter(v => v > 0)\<close>\<close>

definition voiced :: "jsnum list \<Rightarrow> jsnum list" where
  "voiced vs = filter (\<lambda>v. jgt v (Num 0)) vs"

definition compareProsody :: "features \<Rightarrow> features \<Rightarrow> scores" where
  "compareProsody targetFeatures userFeatures =
     (let sf0 = dtwSimilarity (voiced (f0_values (f0 targetFeatures)))
                              (voiced (f0_values (f0 userFeatures)));
          f1Similarity = jsub (Num 1) (Math_min [Num 1, jdiv (Math_abs
              (jsub (fs_mean (f1 (formants targetFeatures))) (fs_mean (f1 (formants userFeatures)))))
              (Num 500)]);
          f2Similarity = jsub (Num 1) (Math_min [Num 1, jdiv (Math_abs
              (jsub (fs_mean (f2 (formants targetFeatures))) (fs_mean (f2 (formants userFeatures)))))
              (Num 800)]);
          sformants = jdiv (jadd f1Similarity f2Similarity) (Num 2);
          sintensity = dtwSimilarity (normalize (in_values (intensity targetFeatures)))
                                     (normalize (in_values (intensity userFeatures)));
          rateDiff = Math_abs (jsub (syllablesPerSecond (speakingRate targetFeatures))
                                    (syllablesPerSecond (speakingRate userFeatures)));
          sspeakingRate = Math_max [Num 0, jsub (Num 1) (jdiv rateDiff (Num 3))];
          spitchRange =
            (case (pitchRange targetFeatures, pitchRange userFeatures) of
               (Some tr, Some ur) \<Rightarrow>
                 let rangeDiff = Math_abs (jsub (jsub (pr_max tr) (pr_min tr))
                                                (jsub (pr_max ur) (pr_min ur)))
                 in Math_max [Num 0, jsub (Num 1) (jdiv rangeDiff (Num 100))]
             | _ \<Rightarrow> Num (1 / 2));
          durationRatio = Math_min [jdiv (duration targetFeatures) (duration userFeatures),
                                    jdiv (duration userFeatures) (duration targetFeatures)];
          sduration = durationRatio;
          soverall =
            jadd (jadd (jadd (jadd (jadd
              (jmul sf0 (Num (25 / 100)))
              (jmul sformants (Num (20 / 100))))
              (jmul sintensity (Num (15 / 100))))
              (jmul sspeakingRate (Num (15 / 100))))
              (jmul spitchRange (Num (15 / 100))))
              (jmul sduration (Num (10 / 100)))
      in \<lparr>score_f0 = sf0, score_formants = sformants, score_intensity = sintensity,
          score_speakingRate = sspeakingRate, score_pitchRange = spitchRange,
          score_duration = sduration, score_overall = soverall\<rparr>)"

section \<open>Feature extraction\<close>

subsection \<open>More of the \<^verbatim>\<open>Math\<close> object\<close>

fun Math_cos :: "jsnum \<Rightarrow> jsnum" where
  "Math_cos (Num a) = Num (cos a)"
| "Math_cos x = NaN"

fun Math_sqrt :: "jsnum \<Rightarrow> jsnum" where
  "Math_sqrt (Num a) = (if a < 0 then NaN else Num (sqrt a))"
| "Math_sqrt PInf = PInf"
| "Math_sqrt x = NaN"

fun Math_log :: "jsnum \<Rightarrow> jsnum" where
  "Math_log (Num a) = (if a < 0 then NaN else if a = 0 then NInf else Num (ln a))"
| "Math_log PInf = PInf"
| "Math_log x = NaN"

fun Math_log10 :: "jsnum \<Rightarrow> jsnum" where
  "Math_log10 (Num a) = (if a < 0 then NaN else if a = 0 then NInf else Num (log 10 a))"
| "Math_log10 PInf = PInf"
| "Math_log10 x = NaN"

definition atan2r :: "real \<Rightarrow> real \<Rightarrow> real" where
  "atan2r y x =
     (if 0 < x then arctan (y / x)
      else if x < 0 then (if 0 \<le> y then arctan (y / x) + pi else arctan (y / x) - pi)
      else if 0 < y then pi / 2 else if y < 0 then - pi / 2 else 0)"

fun Math_atan2 :: "jsnum \<Rightarrow> jsnum \<Rightarrow> jsnum" where
  "Math_atan2 NaN x = NaN"
| "Math_atan2 y NaN = NaN"
| "Math_atan2 (Num y) (Num x) = Num (atan2r y x)"
| "Math_atan2 (Num y) PInf = Num 0"
| "Math_atan2 (Num y) NInf = (if 0 \<le> y then Num pi else Num (- pi))"
| "Math_atan2 PInf (Num x) = Num (pi / 2)"
| "Math_atan2 NInf (Num x) = Num (- pi / 2)"
| "Math_atan2 PInf PInf = Num (pi / 4)"
| "Math_atan2 PInf NInf = Num (3 * pi / 4)"
| "Math_atan2 NInf PInf = Num (- pi / 4)"
| "Math_atan2 NInf NInf = Num (- 3 * pi / 4)"

subsection \<open>The frame grid\<close>

text \<open>
  The three extractors share one loop header,
  \<^verbatim>\<open>for (let i = 0; i + frameSize < samples.length; i += hopSize)\<close>,
  with \<^verbatim>\<open>frameSize = Math.floor(sampleRate * 0.025)\<close> and
  \<^verbatim>\<open>hopSize = Math.floor(sampleRate * 0.010)\<close>. \<open>frameLoop\<close> is that loop: it yields the
  start indices \<open>i\<close> the body runs on, in order. With a hop of zero the loop never leaves
  its first index, and the result is \<open>None\<close>. The sample rate is a natural number (Hz).
\<close>

definition frameSizeOf :: "nat \<Rightarrow> nat" where
  "frameSizeOf sampleRate = nat \<lfloor>real sampleRate * (25 / 1000)\<rfloor>"

definition hopSizeOf :: "nat \<Rightarrow> nat" where
  "hopSizeOf sampleRate = nat \<lfloor>real sampleRate * (10 / 1000)\<rfloor>"

partial_function (option) frameLoop :: "nat \<Rightarrow> nat \<Rightarrow> nat \<Rightarrow> nat \<Rightarrow> nat list option" where
  "frameLoop frameSize hopSize len i =
     (if i + frameSize < len
      then Option.bind (frameLoop frameSize hopSize len (i + hopSize)) (\<lambda>rest. Some (i # rest))
      else Some [])"

text \<open>\<^verbatim>\<open>samples.slice(i, i + frameSize)\<close>\<close>

definition slice :: "'a list \<Rightarrow> nat \<Rightarrow> nat \<Rightarrow> 'a list" where
  "slice xs start endIdx = take (endIdx - start) (drop start xs)"

text \<open>\<^verbatim>\<open>times.push(i / sampleRate)\<close>\<close>

definition frameTime :: "nat \<Rightarrow> nat \<Rightarrow> jsnum" where
  "frameTime sampleRate i = jdiv (Num (real i)) (Num (real sampleRate))"

subsection \<open>Pitch tracker\<close>

definition threshold :: jsnum where
  "threshold = Num (1 / 10)"

text \<open>The difference function: \<^verbatim>\<open>diff\<close> is a zero-filled array of \<open>maxLag\<close> cells.\<close>

definition yinDiffAt :: "jsnum list \<Rightarrow> nat \<Rightarrow> jsnum" where
  "yinDiffAt frame tau =
     fold (\<lambda>i sum. let delta = jsub (elemAt frame i) (elemAt frame (i + tau))
                   in jadd sum (jmul delta delta))
          [0..<length frame - tau] (Num 0)"

definition yinDiff :: "jsnum list \<Rightarrow> nat \<Rightarrow> jsnum list" where
  "yinDiff frame maxLag =
     fold (\<lambda>tau diff. diff[tau := yinDiffAt frame tau]) [1..<maxLag] (replicate maxLag (Num 0))"

text \<open>
  The cumulative mean normalised difference: the loop state is \<^verbatim>\<open>runningSum\<close> and the
  array \<^verbatim>\<open>cmndf\<close>. The store \<^verbatim>\<open>cmndf[0] = 1\<close> into an array of length zero is dropped.
\<close>

definition yinCmndf :: "jsnum list \<Rightarrow> nat \<Rightarrow> jsnum list" where
  "yinCmndf diff maxLag =
     snd (fold (\<lambda>tau (runningSum, cmndf).
                  let runningSum' = jadd runningSum (elemAt diff tau)
                  in (runningSum',
                      cmndf[tau := jdiv (elemAt diff tau) (jdiv runningSum' (Num (real tau)))]))
               [1..<maxLag] (Num 0, (replicate maxLag (Num 0))[0 := Num 1]))"

text \<open>The inner \<^verbatim>\<open>while\<close>, walking down to the local minimum.\<close>

function yinDescend :: "jsnum list \<Rightarrow> nat \<Rightarrow> nat \<Rightarrow> nat" where
  "yinDescend cmndf maxLag tau =
     (if tau + 1 < maxLag \<and> jlt (elemAt cmndf (tau + 1)) (elemAt cmndf tau)
      then yinDescend cmndf maxLag (tau + 1) else tau)"
  by pat_completeness auto
termination
  by (relation "measure (\<lambda>(cmndf, maxLag, tau). maxLag - tau)") auto

text \<open>The outer \<^verbatim>\<open>while (tau < maxLag - 1)\<close>, left by \<^verbatim>\<open>break\<close> after the descent.\<close>

function yinScan :: "jsnum list \<Rightarrow> nat \<Rightarrow> nat \<Rightarrow> nat" where
  "yinScan cmndf maxLag tau =
     (if int tau < int maxLag - 1
      then (if jlt (elemAt cmndf tau) threshold then yinDescend cmndf maxLag tau
            else yinScan cmndf maxLag (tau + 1))
      else tau)"
  by pat_completeness auto
termination
  by (relation "measure (\<lambda>(cmndf, maxLag, tau). maxLag - tau)") auto

declare yinDescend.simps [simp del] yinScan.simps [simp del]

definition yinPitchDetection :: "jsnum list \<Rightarrow> nat \<Rightarrow> nat \<Rightarrow> nat \<Rightarrow> jsnum" where
  "yinPitchDetection frame sampleRate minLag maxLag =
     (let diff = yinDiff frame maxLag;
          cmndf = yinCmndf diff maxLag;
          tau = yinScan cmndf maxLag minLag
      in if int tau \<ge> int maxLag - 1 \<or> jge (elemAt cmndf tau) threshold then Num 0
         else
           let s0 = (if tau = 0 then NaN else elemAt cmndf (tau - 1));
               s1 = elemAt cmndf tau;
               s2 = elemAt cmndf (tau + 1);
               betterTau = jadd (Num (real tau))
                 (jdiv (jsub s2 s0)
                       (jmul (Num 2) (jsub (jsub (jmul (Num 2) s1) s2) s0)))
           in jdiv (Num (real sampleRate)) betterTau)"

definition extractF0Contour :: "jsnum list \<Rightarrow> nat \<Rightarrow> f0Contour option" where
  "extractF0Contour samples sampleRate =
     (let frameSize = frameSizeOf sampleRate;
          hopSize = hopSizeOf sampleRate;
          minLag = nat \<lfloor>real sampleRate / 400\<rfloor>;
          maxLag = nat \<lfloor>real sampleRate / 50\<rfloor>
      in Option.bind (frameLoop frameSize hopSize (length samples) 0) (\<lambda>starts.
           Some \<lparr>f0_values = map (\<lambda>i. yinPitchDetection (slice samples i (i + frameSize))
                                         sampleRate minLag maxLag) starts,
                 f0_times = map (frameTime sampleRate) starts,
                 f0_frameRate = Num (1000 / 10)\<rparr>))"

subsection \<open>Resonance extractor\<close>

definition applyHammingWindow :: "jsnum list \<Rightarrow> jsnum list" where
  "applyHammingWindow frame =
     (let n = length frame
      in map (\<lambda>i. jmul (elemAt frame i)
                (jsub (Num (54 / 100))
                      (jmul (Num (46 / 100))
                            (Math_cos (jdiv (Num (2 * pi * real i)) (Num (real_of_int (int n - 1))))))))
             [0..<n])"

text \<open>\<^verbatim>\<open>preEmphasis(samples, coeff = 0.97)\<close>, always called with the default coefficient.\<close>

definition preEmphasis :: "jsnum list \<Rightarrow> jsnum list" where
  "preEmphasis samples =
     (let coeff = Num (97 / 100)
      in fold (\<lambda>i result. result[i := jsub (elemAt samples i) (jmul coeff (elemAt samples (i - 1)))])
              [1..<length samples]
              ((replicate (length samples) (Num 0))[0 := elemAt samples 0]))"

definition autocorrelation :: "jsnum list \<Rightarrow> nat \<Rightarrow> jsnum list" where
  "autocorrelation samples order' =
     map (\<lambda>i. fold (\<lambda>j sum. jadd sum (jmul (elemAt samples j) (elemAt samples (j + i))))
                    [0..<length samples - i] (Num 0))
         [0..<order']"

text \<open>Levinson-Durbin: the loop state is the pair of arrays \<^verbatim>\<open>a\<close> and \<^verbatim>\<open>e\<close>.\<close>

definition levinsonStep :: "jsnum list \<Rightarrow> nat \<Rightarrow> jsnum list \<times> jsnum list \<Rightarrow> jsnum list \<times> jsnum list" where
  "levinsonStep r i = (\<lambda>(a, e).
     let lambda0 = fold (\<lambda>j l. jadd l (jmul (elemAt a j) (elemAt r (i - j)))) [0..<i] (Num 0);
         lambda = jdiv (jneg lambda0) (elemAt e (i - 1));
         aPrev = a;
         a' = fold (\<lambda>j a. a[j := jadd (elemAt aPrev j) (jmul lambda (elemAt aPrev (i - j)))])
                   [1..<Suc i] a;
         e' = e[i := jmul (jsub (Num 1) (jmul lambda lambda)) (elemAt e (i - 1))]
     in (a', e'))"

definition levinson :: "jsnum list \<Rightarrow> nat \<Rightarrow> jsnum list" where
  "levinson r order' =
     fst (fold (levinsonStep r) [1..<Suc order']
            ((replicate (order' + 1) (Num 0))[0 := Num 1],
             (replicate (order' + 1) (Num 0))[0 := elemAt r 0]))"

record complexNum =
  creal :: jsnum
  cimag :: jsnum

definition complexMul :: "complexNum \<Rightarrow> complexNum \<Rightarrow> complexNum" where
  "complexMul a b =
     \<lparr>creal = jsub (jmul (creal a) (creal b)) (jmul (cimag a) (cimag b)),
      cimag = jadd (jmul (creal a) (cimag b)) (jmul (cimag a) (creal b))\<rparr>"

definition complexDiv :: "complexNum \<Rightarrow> complexNum \<Rightarrow> complexNum" where
  "complexDiv a b =
     (let denom = jadd (jmul (creal b) (creal b)) (jmul (cimag b) (cimag b))
      in \<lparr>creal = jdiv (jadd (jmul (creal a) (creal b)) (jmul (cimag a) (cimag b))) denom,
          cimag = jdiv (jsub (jmul (cimag a) (creal b)) (jmul (creal a) (cimag b))) denom\<rparr>)"

definition evaluatePolynomial :: "jsnum list \<Rightarrow> complexNum \<Rightarrow> complexNum" where
  "evaluatePolynomial coeffs z =
     fst (fold (\<lambda>i (result, zPower).
                  (\<lparr>creal = jadd (creal result) (jmul (elemAt coeffs i) (creal zPower)),
                    cimag = jadd (cimag result) (jmul (elemAt coeffs i) (cimag zPower))\<rparr>,
                   complexMul zPower z))
               [0..<length coeffs]
               (\<lparr>creal = Num 0, cimag = Num 0\<rparr>, \<lparr>creal = Num 1, cimag = Num 0\<rparr>))"

text \<open>
  Durand-Kerner. \<^verbatim>\<open>n = coeffs.length - 1\<close>; the roots are updated in place, so a root
  refined earlier in a sweep is already used for the later ones.
\<close>

definition rootUpdate :: "jsnum list \<Rightarrow> nat \<Rightarrow> nat \<Rightarrow> complexNum list \<Rightarrow> complexNum list" where
  "rootUpdate coeffs n i roots =
     (let p = evaluatePolynomial coeffs (roots ! i);
          denom = fold (\<lambda>j denom.
                     if i \<noteq> j
                     then complexMul denom
                            \<lparr>creal = jsub (creal (roots ! i)) (creal (roots ! j)),
                             cimag = jsub (cimag (roots ! i)) (cimag (roots ! j))\<rparr>
                     else denom)
                   [0..<n] \<lparr>creal = Num 1, cimag = Num 0\<rparr>;
          correction = complexDiv p denom
      in roots[i := \<lparr>creal = jsub (creal (roots ! i)) (creal correction),
                     cimag = jsub (cimag (roots ! i)) (cimag correction)\<rparr>])"

definition findPolynomialRoots :: "jsnum list \<Rightarrow> complexNum list" where
  "findPolynomialRoots coeffs =
     (let n = length coeffs - 1;
          roots0 = map (\<lambda>i. let angle = (2 * pi * real i) / real n
                             in \<lparr>creal = Num (9 / 10 * cos angle), cimag = Num (9 / 10 * sin angle)\<rparr>)
                       [0..<n];
          maxIter = 50
      in fold (\<lambda>iter roots. fold (rootUpdate coeffs n) [0..<n] roots) [0..<maxIter] roots0)"

record formantCandidate =
  freq :: jsnum
  bandwidth :: jsnum

text \<open>
  The loop of \<^verbatim>\<open>lpcToFormants\<close> over the roots, pushing the surviving candidates;
  \<open>rootFreq\<close> and \<open>rootBandwidth\<close> are its two constants \<^verbatim>\<open>freq\<close> and \<^verbatim>\<open>bandwidth\<close>
  for the root \<open>rt\<close>.
\<close>

definition rootFreq :: "complexNum \<Rightarrow> nat \<Rightarrow> jsnum" where
  "rootFreq rt sampleRate =
     jdiv (jmul (Math_atan2 (cimag rt) (creal rt)) (Num (real sampleRate))) (Num (2 * pi))"

definition rootBandwidth :: "complexNum \<Rightarrow> nat \<Rightarrow> jsnum" where
  "rootBandwidth rt sampleRate =
     jdiv (jmul (jneg (Math_log (Math_sqrt
                   (jadd (jmul (creal rt) (creal rt)) (jmul (cimag rt) (cimag rt))))))
                (Num (real sampleRate))) (Num pi)"

definition formantCandidates :: "complexNum list \<Rightarrow> nat \<Rightarrow> formantCandidate list" where
  "formantCandidates roots sampleRate =
     concat (map (\<lambda>rt.
       if jgt (cimag rt) (Num 0)
       then
         let fr = rootFreq rt sampleRate;
             bw = rootBandwidth rt sampleRate
         in if jgt fr (Num 200) \<and> jlt fr (Num 5000) \<and> jlt bw (Num 500)
            then [\<lparr>freq = fr, bandwidth = bw\<rparr>] else []
       else []) roots)"

text \<open>
  \<^verbatim>\<open>formants.sort((a, b) => a.freq - b.freq)\<close>: the sort is stable, and \<open>a\<close> stays before
  \<open>b\<close> unless the comparator's answer is positive.
\<close>

fun insertBy :: "('a \<Rightarrow> 'a \<Rightarrow> jsnum) \<Rightarrow> 'a \<Rightarrow> 'a list \<Rightarrow> 'a list" where
  "insertBy cmp x [] = [x]"
| "insertBy cmp x (y # ys) = (if jgt (cmp x y) (Num 0) then y # insertBy cmp x ys else x # y # ys)"

definition sortBy :: "('a \<Rightarrow> 'a \<Rightarrow> jsnum) \<Rightarrow> 'a list \<Rightarrow> 'a list" where
  "sortBy cmp xs = foldr (insertBy cmp) xs []"

definition lpcToFormants :: "jsnum list \<Rightarrow> nat \<Rightarrow> jsnum list" where
  "lpcToFormants lpcCoeffs sampleRate =
     (let roots = findPolynomialRoots lpcCoeffs;
          cands = formantCandidates roots sampleRate;
          sorted' = sortBy (\<lambda>a b. jsub (freq a) (freq b)) cands
      in map freq (slice sorted' 0 3))"

text \<open>\<^verbatim>\<open>formants[k] || 0\<close>: a missing slot is \<^verbatim>\<open>undefined\<close>, hence \<open>0\<close>.\<close>

definition slotOrZero :: "jsnum list \<Rightarrow> nat \<Rightarrow> jsnum" where
  "slotOrZero fs k = (if k < length fs then orElse (fs ! k) (Num 0) else Num 0)"

definition lpcOrder :: nat where
  "lpcOrder = 12"

text \<open>
  The body of the frame loop of \<^verbatim>\<open>extractFormants\<close>, up to the three pushes: the
  prediction coefficients of the frame that starts at \<open>i\<close>, then its formants.
\<close>

definition frameLpcCoeffs :: "jsnum list \<Rightarrow> nat \<Rightarrow> nat \<Rightarrow> jsnum list" where
  "frameLpcCoeffs samples sampleRate i =
     (let frame = slice samples i (i + frameSizeOf sampleRate);
          windowed = applyHammingWindow frame;
          preEmph = preEmphasis windowed;
          lpcCoeffs = levinson (autocorrelation preEmph (lpcOrder + 1)) lpcOrder
      in lpcCoeffs)"

definition frameFormants :: "jsnum list \<Rightarrow> nat \<Rightarrow> nat \<Rightarrow> jsnum list" where
  "frameFormants samples sampleRate i =
     (let lpcCoeffs = frameLpcCoeffs samples sampleRate i;
          formants = lpcToFormants lpcCoeffs sampleRate
      in formants)"

definition formantSeriesOf :: "jsnum list \<Rightarrow> formantSeries" where
  "formantSeriesOf vs = \<lparr>fs_values = vs, fs_mean = mean (voiced vs)\<rparr>"

definition extractFormants :: "jsnum list \<Rightarrow> nat \<Rightarrow> formantContour option" where
  "extractFormants samples sampleRate =
     (let frameSize = frameSizeOf sampleRate;
          hopSize = hopSizeOf sampleRate
      in Option.bind (frameLoop frameSize hopSize (length samples) 0) (\<lambda>starts.
           let f1Values = map (\<lambda>i. slotOrZero (frameFormants samples sampleRate i) 0) starts;
               f2Values = map (\<lambda>i. slotOrZero (frameFormants samples sampleRate i) 1) starts;
               f3Values = map (\<lambda>i. slotOrZero (frameFormants samples sampleRate i) 2) starts
           in Some \<lparr>f1 = formantSeriesOf f1Values, f2 = formantSeriesOf f2Values,
                    f3 = formantSeriesOf f3Values, fm_times = map (frameTime sampleRate) starts\<rparr>))"

subsection \<open>Envelope analyser\<close>

text \<open>The body of the frame loop of \<^verbatim>\<open>extractIntensity\<close>: the level of one frame in dB.\<close>

definition frameDB :: "jsnum list \<Rightarrow> jsnum" where
  "frameDB frame =
     (let sum = fold (\<lambda>j sum. jadd sum (jmul (elemAt frame j) (elemAt frame j)))
                     [0..<length frame] (Num 0);
          rms = Math_sqrt (jdiv sum (Num (real (length frame))));
          dB = jmul (Num 20) (Math_log10 (jadd rms (Num (1 / 10 ^ 10))))
      in dB)"

definition extractIntensity :: "jsnum list \<Rightarrow> nat \<Rightarrow> intensityContour option" where
  "extractIntensity samples sampleRate =
     (let frameSize = frameSizeOf sampleRate;
          hopSize = hopSizeOf sampleRate
      in Option.bind (frameLoop frameSize hopSize (length samples) 0) (\<lambda>starts.
           let vals = map (\<lambda>i. frameDB (slice samples i (i + frameSize))) starts
           in Some \<lparr>in_values = vals, in_times = map (frameTime sampleRate) starts,
                    in_mean = mean vals, in_range = jsub (Math_max vals) (Math_min vals)\<rparr>))"

text \<open>
  \<^verbatim>\<open>movingAverage(arr, windowSize)\<close>: \<^verbatim>\<open>Math.max(0, i - Math.floor(windowSize / 2))\<close> is
  the truncated subtraction of naturals, and \<^verbatim>\<open>Math.ceil(windowSize / 2)\<close> is
  \<open>(windowSize + 1) div 2\<close>.
\<close>

definition movingAverage :: "jsnum list \<Rightarrow> nat \<Rightarrow> jsnum list" where
  "movingAverage arr windowSize =
     map (\<lambda>i. let start = i - windowSize div 2;
                   endIdx = min (length arr) (i + (windowSize + 1) div 2);
                   window = slice arr start endIdx
               in mean window)
         [0..<length arr]"

definition estimateSpeakingRate :: "jsnum list \<Rightarrow> nat \<Rightarrow> speakingRateEstimate option" where
  "estimateSpeakingRate samples sampleRate =
     Option.bind (extractIntensity samples sampleRate) (\<lambda>intensity.
       let smoothed = movingAverage (in_values intensity) 5;
           peaks = filter (\<lambda>i. jgt (elemAt smoothed i) (elemAt smoothed (i - 1)) \<and>
                                jgt (elemAt smoothed i) (elemAt smoothed (i + 1)) \<and>
                                jgt (elemAt smoothed i) (in_mean intensity))
                          [1..<length smoothed - 1];
           duration = jdiv (Num (real (length samples))) (Num (real sampleRate));
           syllablesPerSecond = jdiv (Num (real (length peaks))) duration
       in Some \<lparr>syllablesPerSecond = syllablesPerSecond, estimatedSyllables = length peaks,
                sr_duration = duration\<rparr>)"

subsection \<open>Feature aggregator\<close>

definition calculateVariance :: "jsnum list \<Rightarrow> jsnum" where
  "calculateVariance arr =
     (let m = mean arr
      in jdiv (foldl (\<lambda>sum v. jadd sum (jmul (jsub v m) (jsub v m))) (Num 0) arr)
              (Num (real (length arr))))"

text \<open>
  The decoder is the browser's \<^verbatim>\<open>decodeAudioData\<close>, a parameter of the model: it answers
  an error of its own kind \<open>'e\<close> (the promise is rejected) or the decoded buffer, of which
  the analyser reads channel 0 and the duration. The sample rate is the one of the audio
  context.
\<close>

record audioBuffer =
  channelData0 :: "jsnum list"
  ab_duration :: jsnum

definition pitchRangeOf :: "jsnum list \<Rightarrow> pitchRangeStats option" where
  "pitchRangeOf f0vals =
     (let validF0 = voiced f0vals
      in if length validF0 > 0
         then Some \<lparr>pr_min = Math_min validF0, pr_max = Math_max validF0,
                    pr_mean = jdiv (sumArr validF0) (Num (real (length validF0))),
                    pr_variance = calculateVariance validF0\<rparr>
         else None)"

text \<open>
  The result is \<open>None\<close> when the analysis does not return, \<open>Some (Inl e)\<close> when it fails
  with the error \<open>e\<close>, and \<open>Some (Inr features)\<close> when it returns the bundle.
\<close>

definition analyzeAudio :: "('blob \<Rightarrow> 'e + audioBuffer) \<Rightarrow> nat \<Rightarrow> 'blob \<Rightarrow> ('e + features) option" where
  "analyzeAudio decodeAudioData sampleRate audioBlob =
     (case decodeAudioData audioBlob of
        Inl e \<Rightarrow> Some (Inl e)
      | Inr audioBuf \<Rightarrow>
          let samples = channelData0 audioBuf
          in Option.bind (extractF0Contour samples sampleRate) (\<lambda>f0c.
             Option.bind (extractFormants samples sampleRate) (\<lambda>fmc.
             Option.bind (extractIntensity samples sampleRate) (\<lambda>inc.
             Option.bind (estimateSpeakingRate samples sampleRate) (\<lambda>rate.
               Some (Inr \<lparr>f0 = f0c, formants = fmc, intensity = inc,
                          duration = ab_duration audioBuf, speakingRate = rate,
                          pitchRange = pitchRangeOf (f0_values f0c)\<rparr>))))))"

section \<open>Notions used to state the properties\<close>

text \<open>
  A number is finite when it is neither \<open>NaN\<close> nor infinite; it lies in the unit interval
  when it is finite and between 0 and 1.
\<close>

fun isFinite :: "jsnum \<Rightarrow> bool" where
  "isFinite (Num a) = True"
| "isFinite x = False"

fun inUnitInterval :: "jsnum \<Rightarrow> bool" where
  "inUnitInterval (Num a) = (0 \<le> a \<and> a \<le> 1)"
| "inUnitInterval x = False"

fun nonNeg :: "jsnum \<Rightarrow> bool" where
  "nonNeg (Num a) = (0 \<le> a)"
| "nonNeg PInf = True"
| "nonNeg x = False"

text \<open>
  The recurrence the matrix of \<^verbatim>\<open>dtwSimilarity\<close> is filled by, as a function of the
  cell: \<open>dtwD a b i j\<close> is the cost of the best warping path between the first \<open>i\<close>
  elements of \<open>a\<close> and the first \<open>j\<close> elements of \<open>b\<close>.
\<close>

fun dtwD :: "jsnum list \<Rightarrow> jsnum list \<Rightarrow> nat \<Rightarrow> nat \<Rightarrow> jsnum" where
  "dtwD a b 0 0 = Num 0"
| "dtwD a b 0 (Suc j) = PInf"
| "dtwD a b (Suc i) 0 = PInf"
| "dtwD a b (Suc i) (Suc j) =
     jadd (Math_abs (jsub (elemAt a i) (elemAt b j)))
          (Math_min [dtwD a b i (Suc j), dtwD a b (Suc i) j, dtwD a b i j])"

text \<open>
  The loop invariant of the fill: rows before \<open>k\<close>, and row \<open>k\<close> up to column \<open>l\<close>,
  hold the recurrence; every other cell still holds \<open>Infinity\<close>.
\<close>

definition dtwInv :: "jsnum list \<Rightarrow> jsnum list \<Rightarrow> nat \<Rightarrow> nat \<Rightarrow> nat \<Rightarrow> nat \<Rightarrow> jsnum list list \<Rightarrow> bool" where
  "dtwInv a b n m k l M =
     (length M = n + 1 \<and> (\<forall>i\<le>n. length (M ! i) = m + 1) \<and>
      (\<forall>i\<le>n. \<forall>j\<le>m. M ! i ! j = (if i < k \<or> (i = k \<and> j \<le> l) then dtwD a b i j else PInf)))"

text \<open>
  A bundle is valid when the numbers the comparator reads are finite and its duration is
  positive: this is what a non-empty buffer of finite samples is analysed into.
\<close>

definition validBundle :: "features \<Rightarrow> bool" where
  "validBundle b =
     ((\<forall>v\<in>set (voiced (f0_values (f0 b))). isFinite v) \<and>
      isFinite (fs_mean (f1 (formants b))) \<and>
      isFinite (fs_mean (f2 (formants b))) \<and>
      (\<forall>v\<in>set (in_values (intensity b)). isFinite v) \<and>
      isFinite (syllablesPerSecond (speakingRate b)) \<and>
      (case pitchRange b of None \<Rightarrow> True | Some r \<Rightarrow> isFinite (pr_min r) \<and> isFinite (pr_max r)) \<and>
      jgt (duration b) (Num 0) \<and> isFinite (duration b))"

text \<open>
  The normalised difference function of a silent frame: \<open>1\<close> at lag 0 and \<open>NaN\<close> (from
  \<open>0 / 0\<close>) at every lag already visited; \<open>k\<close> is the lag the loop has reached.
\<close>

definition silentCmndf :: "nat \<Rightarrow> nat \<Rightarrow> jsnum list" where
  "silentCmndf maxLag k = map (\<lambda>t. if t = 0 then Num 1 else if t < k then NaN else Num 0) [0..<maxLag]"

text \<open>Two decoders to run the aggregator on: one that answers a given buffer, one that fails.\<close>

definition decodedAs :: "audioBuffer \<Rightarrow> 'blob \<Rightarrow> 'e + audioBuffer" where
  "decodedAs buf blob = Inr buf"

definition rejecting :: "'e \<Rightarrow> 'blob \<Rightarrow> 'e + audioBuffer" where
  "rejecting e blob = Inl e"

text \<open>Two bundles to try the comparator on: a voiced one and an unvoiced one.\<close>

definition voicedBundle :: features where
  "voicedBundle =
     \<lparr>f0 = \<lparr>f0_values = [Num 0, Num 120, Num 130],
             f0_times = [Num 0, Num (1 / 100), Num (2 / 100)], f0_frameRate = Num 100\<rparr>,
      formants = \<lparr>f1 = \<lparr>fs_values = [Num 500, Num 520, Num 0], fs_mean = Num 510\<rparr>,
                  f2 = \<lparr>fs_values = [Num 1500, Num 1480, Num 0], fs_mean = Num 1490\<rparr>,
                  f3 = \<lparr>fs_values = [Num 0, Num 0, Num 0], fs_mean = Num 0\<rparr>,
                  fm_times = [Num 0, Num (1 / 100), Num (2 / 100)]\<rparr>,
      intensity = \<lparr>in_values = [Num (- 30), Num (- 20), Num (- 25)],
                   in_times = [Num 0, Num (1 / 100), Num (2 / 100)],
                   in_mean = Num (- 25), in_range = Num 10\<rparr>,
      duration = Num (1 / 20),
      speakingRate = \<lparr>syllablesPerSecond = Num 20, estimatedSyllables = 1,
                      sr_duration = Num (1 / 20)\<rparr>,
      pitchRange = Some \<lparr>pr_min = Num 120, pr_max = Num 130, pr_mean = Num 125,
                         pr_variance = Num 25\<rparr>\<rparr>"

definition unvoicedBundle :: features where
  "unvoicedBundle =
     \<lparr>f0 = \<lparr>f0_values = [Num 0, Num 0],
             f0_times = [Num 0, Num (1 / 100)], f0_frameRate = Num 100\<rparr>,
      formants = \<lparr>f1 = \<lparr>fs_values = [Num 0, Num 0], fs_mean = Num 0\<rparr>,
                  f2 = \<lparr>fs_values = [Num 0, Num 0], fs_mean = Num 0\<rparr>,
                  f3 = \<lparr>fs_values = [Num 0, Num 0], fs_mean = Num 0\<rparr>,
                  fm_times = [Num 0, Num (1 / 100)]\<rparr>,
      intensity = \<lparr>in_values = [Num (- 200), Num (- 200)],
                   in_times = [Num 0, Num (1 / 100)],
                   in_mean = Num (- 200), in_range = Num 0\<rparr>,
      duration = Num (1 / 25),
      speakingRate = \<lparr>syllablesPerSecond = Num 0, estimatedSyllables = 0,
                      sr_duration = Num (1 / 25)\<rparr>,
      pitchRange = None\<rparr>"

text \<open>The value of a finite number, and the frequency of a candidate as a real.\<close>

fun numVal :: "jsnum \<Rightarrow> real" where
  "numVal (Num a) = a"
| "numVal x = 0"

definition freqVal :: "formantCandidate \<Rightarrow> real" where
  "freqVal c = numVal (freq c)"

text \<open>
  The overall score of a bundle against itself, the bundle of an analysis that returned
  one, and two decoded buffers: one second of silence at 44100 Hz, and 30 ms of a 100 Hz
  tone at 400 Hz.
\<close>

definition selfOverall :: "features \<Rightarrow> jsnum" where
  "selfOverall b = score_overall (compareProsody b b)"

definition bundleOf :: "('e + features) option \<Rightarrow> features option" where
  "bundleOf r = (case r of Some (Inr b) \<Rightarrow> Some b | _ \<Rightarrow> None)"

definition silentSecond :: audioBuffer where
  "silentSecond = \<lparr>channelData0 = replicate 44100 (Num 0), ab_duration = Num 1\<rparr>"

definition toneBuffer :: audioBuffer where
  "toneBuffer = \<lparr>channelData0 = [Num 1, Num 0, Num (- 1), Num 0, Num 1, Num 0, Num (- 1), Num 0,
                                  Num 1, Num 0, Num (- 1), Num 0],
                  ab_duration = Num (3 / 100)\<rparr>"

section \<open>Properties of the comparator\<close>

subsection \<open>The matrix holds the recurrence\<close>

lemma dtwInv_init: "dtwInv a b n m 1 0 (dtwInit n m)"
  unfolding dtwInv_def dtwInit_def
  apply (intro conjI allI impI)
    apply simp
   apply (case_tac i; simp)
  apply (case_tac i; case_tac j; simp)
  done

lemma dtwInv_cell:
  assumes "dtwInv a b n m k l M" "1 \<le> k" "k \<le> n" "l < m"
  shows "dtwInv a b n m k (Suc l) (dtwCell a b k (Suc l) M)"
proof -
  obtain k' where k': "k = Suc k'" using assms(2) by (cases k) auto
  have len: "length M = n + 1" and rows: "\<And>i. i \<le> n \<Longrightarrow> length (M ! i) = m + 1"
    and ent: "\<And>i j. i \<le> n \<Longrightarrow> j \<le> m \<Longrightarrow> M ! i ! j = (if i < k \<or> (i = k \<and> j \<le> l) then dtwD a b i j else PInf)"
    using assms(1) unfolding dtwInv_def by auto
  have e1: "M ! (k - 1) ! Suc l = dtwD a b k' (Suc l)" using ent[of k' "Suc l"] assms k' by simp
  have e2: "M ! k ! l = dtwD a b k l" using ent[of k l] assms by simp
  have e3: "M ! (k - 1) ! l = dtwD a b k' l" using ent[of k' l] assms k' by simp
  have new: "jadd (Math_abs (jsub (elemAt a (k - 1)) (elemAt b (Suc l - 1))))
               (Math_min [M ! (k - 1) ! Suc l, M ! k ! (Suc l - 1), M ! (k - 1) ! (Suc l - 1)])
             = dtwD a b k (Suc l)"
    using e1 e2 e3 k' by simp
  show ?thesis
    unfolding dtwInv_def dtwCell_def Let_def new
  proof (intro conjI allI impI)
    show "length (M[k := (M ! k)[Suc l := dtwD a b k (Suc l)]]) = n + 1" using len by simp
  next
    fix i assume "i \<le> n"
    then show "length (M[k := (M ! k)[Suc l := dtwD a b k (Suc l)]] ! i) = m + 1"
      using rows len by (cases "i = k") auto
  next
    fix i j assume ij: "i \<le> n" "j \<le> m"
    show "M[k := (M ! k)[Suc l := dtwD a b k (Suc l)]] ! i ! j =
          (if i < k \<or> i = k \<and> j \<le> Suc l then dtwD a b i j else PInf)"
    proof (cases "i = k")
      case True
      then show ?thesis using ij len rows[of k] ent[of k j] assms
        by (cases "j = Suc l") (auto simp: nth_list_update)
    next
      case False
      then show ?thesis using ij len ent[of i j] by (auto simp: nth_list_update)
    qed
  qed
qed

lemma dtwInv_row_aux:
  assumes "dtwInv a b n m k 0 M" "1 \<le> k" "k \<le> n"
  shows "l \<le> m \<Longrightarrow> dtwInv a b n m k l (fold (\<lambda>j d. dtwCell a b k j d) [1..<Suc l] M)"
proof (induction l)
  case 0
  then show ?case using assms by simp
next
  case (Suc l)
  then have "dtwInv a b n m k l (fold (\<lambda>j d. dtwCell a b k j d) [1..<Suc l] M)" by simp
  from dtwInv_cell[OF this assms(2,3)] Suc.prems show ?case by simp
qed

lemma dtwInv_next: "dtwInv a b n m k m M \<Longrightarrow> dtwInv a b n m (Suc k) 0 M"
  unfolding dtwInv_def
  apply (intro conjI allI impI; (elim conjE)?)
    apply simp
   apply simp
  subgoal for i j
    apply (cases "i = Suc k")
     apply (cases j; simp)
    apply (auto simp: less_Suc_eq)
    done
  done

lemma dtwInv_row:
  "dtwInv a b n m k 0 M \<Longrightarrow> 1 \<le> k \<Longrightarrow> k \<le> n \<Longrightarrow> dtwInv a b n m (Suc k) 0 (dtwRow a b m k M)"
  unfolding dtwRow_def by (rule dtwInv_next) (rule dtwInv_row_aux; simp)

lemma dtwInv_fill_aux:
  "k \<le> n \<Longrightarrow> dtwInv a b n m (Suc k) 0 (fold (\<lambda>i d. dtwRow a b m i d) [1..<Suc k] (dtwInit n m))"
proof (induction k)
  case 0
  then show ?case using dtwInv_init by simp
next
  case (Suc k)
  then have "dtwInv a b n m (Suc k) 0 (fold (\<lambda>i d. dtwRow a b m i d) [1..<Suc k] (dtwInit n m))" by simp
  from dtwInv_row[OF this] Suc.prems show ?case by simp
qed

lemma dtwFill_eq_dtwD:
  "i \<le> n \<Longrightarrow> j \<le> m \<Longrightarrow> dtwFill a b n m (dtwInit n m) ! i ! j = dtwD a b i j"
  using dtwInv_fill_aux[of n n a b m] unfolding dtwFill_def dtwInv_def by auto

subsection \<open>Arithmetic of the numbers\<close>

lemma isFinite_iff: "isFinite x \<longleftrightarrow> (\<exists>r. x = Num r)"
  by (cases x) auto

lemma jsub_Num [simp]: "jsub (Num a) (Num b) = Num (a - b)"
  by (simp add: jsub_def)

lemma Math_abs_jsub_commute: "Math_abs (jsub x y) = Math_abs (jsub y x)"
  by (cases x; cases y) (auto simp: jsub_def)

lemma jmin2_commute: "jmin2 x y = jmin2 y x"
  by (cases x; cases y) (auto simp: jmin2_def)

lemma jmin2_assoc: "jmin2 (jmin2 x y) z = jmin2 x (jmin2 y z)"
  by (cases x; cases y; cases z) (auto simp: jmin2_def)

lemma jmin2_PInf [simp]: "jmin2 PInf x = x"
  by (cases x) (auto simp: jmin2_def)

lemma Math_min3: "Math_min [x, y, z] = jmin2 (jmin2 x y) z"
  by (simp add: Math_min_def)

lemma Math_min2: "Math_min [x, y] = jmin2 x y"
  by (simp add: Math_min_def)

lemma Math_min3_swap: "Math_min [x, y, z] = Math_min [y, x, z]"
  by (simp add: Math_min3 jmin2_commute)

lemma jmax2_commute: "jmax2 x y = jmax2 y x"
  by (cases x; cases y) (auto simp: jmax2_def)

lemma jmax2_NInf [simp]: "jmax2 NInf x = x"
  by (cases x) (auto simp: jmax2_def)

lemma Math_max2: "Math_max [x, y] = jmax2 x y"
  by (simp add: Math_max_def)

lemma jadd_commute: "jadd x y = jadd y x"
  by (cases x; cases y) auto

lemma jmul_commute: "jmul x y = jmul y x"
  by (cases x; cases y) auto

lemma dtwD_sym: "dtwD a b i j = dtwD b a j i"
proof (induction a b i j rule: dtwD.induct)
  case (4 a b i j)
  then show ?case
    by (simp add: Math_abs_jsub_commute[of "elemAt a i"] Math_min3_swap[of "dtwD b a (Suc j) i"])
qed simp_all

lemma nonNeg_jmin2: "nonNeg x \<Longrightarrow> nonNeg y \<Longrightarrow> nonNeg (jmin2 x y)"
  by (cases x; cases y) (auto simp: jmin2_def)

lemma nonNeg_cost: "isFinite x \<Longrightarrow> isFinite y \<Longrightarrow> \<exists>c\<ge>0. Math_abs (jsub x y) = Num c"
  by (cases x; cases y) auto

lemma nonNeg_jadd_cost: "0 \<le> c \<Longrightarrow> nonNeg x \<Longrightarrow> nonNeg (jadd (Num c) x)"
  by (cases x) auto

lemma elemAt_finite: "\<forall>x\<in>set xs. isFinite x \<Longrightarrow> i < length xs \<Longrightarrow> isFinite (elemAt xs i)"
  by (simp add: elemAt_def)

lemma dtwD_nonNeg:
  "\<forall>x\<in>set a. isFinite x \<Longrightarrow> \<forall>x\<in>set b. isFinite x \<Longrightarrow> i \<le> length a \<Longrightarrow> j \<le> length b \<Longrightarrow>
   nonNeg (dtwD a b i j)"
proof (induction a b i j rule: dtwD.induct)
  case (4 a b i j)
  then have ih: "nonNeg (dtwD a b i (Suc j))" "nonNeg (dtwD a b (Suc i) j)" "nonNeg (dtwD a b i j)"
    by simp_all
  have "isFinite (elemAt a i)" "isFinite (elemAt b j)"
    using 4 by (simp_all add: elemAt_finite)
  then obtain c where c: "0 \<le> c" "Math_abs (jsub (elemAt a i) (elemAt b j)) = Num c"
    using nonNeg_cost by blast
  have "nonNeg (Math_min [dtwD a b i (Suc j), dtwD a b (Suc i) j, dtwD a b i j])"
    unfolding Math_min3 by (intro nonNeg_jmin2 ih)
  then show ?case using c by (simp add: nonNeg_jadd_cost)
qed simp_all

lemma jmin2_zero: "nonNeg x \<Longrightarrow> jmin2 x (Num 0) = Num 0"
  by (cases x) (auto simp: jmin2_def)

lemma dtwD_diag:
  "\<forall>x\<in>set a. isFinite x \<Longrightarrow> i \<le> length a \<Longrightarrow> dtwD a a i i = Num 0"
proof (induction i)
  case 0
  then show ?case by simp
next
  case (Suc i)
  then have d: "dtwD a a i i = Num 0" by simp
  have "isFinite (elemAt a i)" using Suc by (simp add: elemAt_finite)
  then obtain r where r: "elemAt a i = Num r" by (auto simp: isFinite_iff)
  have "nonNeg (jmin2 (dtwD a a i (Suc i)) (dtwD a a (Suc i) i))"
    using Suc.prems by (intro nonNeg_jmin2 dtwD_nonNeg) simp_all
  then show ?case by (simp add: Math_min3 d r jmin2_zero)
qed

subsection \<open>Resampling and normalisation keep numbers finite\<close>

lemma foldl_jmin2_finite:
  "\<forall>x\<in>set xs. isFinite x \<Longrightarrow> isFinite acc \<or> (acc = PInf \<and> xs \<noteq> []) \<Longrightarrow> isFinite (foldl jmin2 acc xs)"
proof (induction xs arbitrary: acc)
  case Nil
  then show ?case by simp
next
  case (Cons x xs)
  then have "isFinite (jmin2 acc x)"
    by (cases acc; cases x) (auto simp: jmin2_def)
  with Cons show ?case by simp
qed

lemma foldl_jmax2_finite:
  "\<forall>x\<in>set xs. isFinite x \<Longrightarrow> isFinite acc \<or> (acc = NInf \<and> xs \<noteq> []) \<Longrightarrow> isFinite (foldl jmax2 acc xs)"
proof (induction xs arbitrary: acc)
  case Nil
  then show ?case by simp
next
  case (Cons x xs)
  then have "isFinite (jmax2 acc x)"
    by (cases acc; cases x) (auto simp: jmax2_def)
  with Cons show ?case by simp
qed

lemma Math_min_finite: "xs \<noteq> [] \<Longrightarrow> \<forall>x\<in>set xs. isFinite x \<Longrightarrow> isFinite (Math_min xs)"
  unfolding Math_min_def by (rule foldl_jmin2_finite) auto

lemma Math_max_finite: "xs \<noteq> [] \<Longrightarrow> \<forall>x\<in>set xs. isFinite x \<Longrightarrow> isFinite (Math_max xs)"
  unfolding Math_max_def by (rule foldl_jmax2_finite) auto

lemma length_normalize [simp]: "length (normalize xs) = length xs"
  by (simp add: normalize_def Let_def)

lemma length_resample [simp]: "length (resample xs n) = n"
  by (simp add: resample_def Let_def)

lemma normalize_finite:
  assumes "\<forall>x\<in>set xs. isFinite x"
  shows "\<forall>x\<in>set (normalize xs). isFinite x"
proof (cases "xs = []")
  case True
  then show ?thesis by (simp add: normalize_def)
next
  case False
  obtain mn mx where mn: "Math_min xs = Num mn" and mx: "Math_max xs = Num mx"
    using Math_min_finite[OF False assms] Math_max_finite[OF False assms]
    by (auto simp: isFinite_iff)
  obtain rg where rg: "orElse (jsub (Math_max xs) (Math_min xs)) (Num 1) = Num rg" "rg \<noteq> 0"
    by (cases "mx = mn") (auto simp: mn mx orElse_def truthy_def)
  have "isFinite (jdiv (jsub x (Math_min xs)) (Num rg))" if "x \<in> set xs" for x
  proof -
    have "isFinite x" using assms that by blast
    then obtain r where "x = Num r" by (auto simp: isFinite_iff)
    then show ?thesis using rg(2) by (simp add: mn)
  qed
  then show ?thesis
    unfolding normalize_def Let_def rg by simp
qed

lemma resample_index:
  assumes "i < t" "0 < len"
  shows "nat \<lfloor>real i * (real len / real t)\<rfloor> < len"
proof -
  have t: "0 < real t" using assms by simp
  have "i * len < t * len" using assms by simp
  then have "real (i * len) < real t * real len"
    by (metis of_nat_less_iff of_nat_mult)
  then have "real i * (real len / real t) < real len"
    using t by (simp add: field_simps)
  moreover have "0 \<le> real i * (real len / real t)" by simp
  ultimately show ?thesis
    by (metis floor_less_iff nat_less_iff of_int_of_nat_eq zero_le_floor)
qed

lemma resample_finite:
  assumes "\<forall>x\<in>set xs. isFinite x" "xs \<noteq> []"
  shows "\<forall>x\<in>set (resample xs n). isFinite x"
proof (cases "length xs = n")
  case True
  then show ?thesis using assms by (simp add: resample_def)
next
  case False
  have len: "0 < length xs" using assms by simp
  have "isFinite (jadd (jmul (elemAt xs (nat \<lfloor>real i * (real (length xs) / real n)\<rfloor>)) (Num c))
                (jmul (elemAt xs (min (nat \<lfloor>real i * (real (length xs) / real n)\<rfloor> + 1) (length xs - 1))) (Num d)))"
    if "i < n" for i c d
  proof -
    have "isFinite (elemAt xs (nat \<lfloor>real i * (real (length xs) / real n)\<rfloor>))"
      using resample_index[OF that len] assms(1) by (simp add: elemAt_finite)
    moreover have "isFinite (elemAt xs (min (nat \<lfloor>real i * (real (length xs) / real n)\<rfloor> + 1) (length xs - 1)))"
    proof (rule elemAt_finite[OF assms(1)])
      have "length xs - 1 < length xs" using len by simp
      then show "min (nat \<lfloor>real i * (real (length xs) / real n)\<rfloor> + 1) (length xs - 1) < length xs"
        by (simp add: min_less_iff_disj)
    qed
    ultimately show ?thesis by (auto simp: isFinite_iff)
  qed
  then show ?thesis using False by (auto simp: resample_def Let_def)
qed

lemma dtwSimilarity_eq:
  assumes "seq1 \<noteq> []" "seq2 \<noteq> []"
  shows "dtwSimilarity seq1 seq2 =
         jsub (Num 1) (Math_min [Num 1,
           jdiv (dtwD (normalize (resample seq1 (min (length seq1) 100)))
                      (normalize (resample seq2 (min (length seq2) 100)))
                      (min (length seq1) 100) (min (length seq2) 100))
                (Num (real (max (min (length seq1) 100) (min (length seq2) 100))))])"
  using assms by (simp add: dtwSimilarity_def Let_def dtwFill_eq_dtwD)

lemma dtwSimilarity_sym: "dtwSimilarity seq1 seq2 = dtwSimilarity seq2 seq1"
proof (cases "seq1 = [] \<or> seq2 = []")
  case True
  then show ?thesis by (auto simp: dtwSimilarity_def)
next
  case False
  then show ?thesis
    by (simp add: dtwSimilarity_eq max.commute
        dtwD_sym[of "normalize (resample seq1 (min (length seq1) 100))"])
qed

lemma unit_from_nonNeg:
  assumes "nonNeg d" "0 < k"
  shows "inUnitInterval (jsub (Num 1) (Math_min [Num 1, jdiv d (Num k)]))"
  using assms by (cases d) (auto simp: Math_min2 jmin2_def)

lemma dtwSimilarity_unit:
  assumes "seq1 \<noteq> []" "seq2 \<noteq> []" "\<forall>x\<in>set seq1. isFinite x" "\<forall>x\<in>set seq2. isFinite x"
  shows "inUnitInterval (dtwSimilarity seq1 seq2)"
proof -
  have "nonNeg (dtwD (normalize (resample seq1 (min (length seq1) 100)))
                      (normalize (resample seq2 (min (length seq2) 100)))
                      (min (length seq1) 100) (min (length seq2) 100))"
    using assms by (intro dtwD_nonNeg normalize_finite resample_finite) simp_all
  moreover have "0 < real (max (min (length seq1) 100) (min (length seq2) 100))"
    using assms(1) by (cases seq1) auto
  ultimately show ?thesis
    unfolding dtwSimilarity_eq[OF assms(1,2)] by (rule unit_from_nonNeg)
qed

lemma dtwSimilarity_self:
  assumes "seq \<noteq> []" "\<forall>x\<in>set seq. isFinite x"
  shows "dtwSimilarity seq seq = Num 1"
proof -
  have "dtwD (normalize (resample seq (min (length seq) 100)))
             (normalize (resample seq (min (length seq) 100)))
             (min (length seq) 100) (min (length seq) 100) = Num 0"
    using assms by (intro dtwD_diag normalize_finite resample_finite) simp_all
  moreover have "real (min (length seq) 100) \<noteq> 0"
    using assms(1) by (cases seq) auto
  ultimately show ?thesis
    unfolding dtwSimilarity_eq[OF assms(1) assms(1)] max.idem
    by (simp only: jdiv.simps if_False Math_min2 jmin2_def) simp
qed

subsection \<open>The scores\<close>

lemma closeness_unit:
  assumes "isFinite x" "isFinite y" "0 < k"
  shows "inUnitInterval (jsub (Num 1) (Math_min [Num 1, jdiv (Math_abs (jsub x y)) (Num k)]))"
  using assms by (cases x; cases y) (auto simp: Math_min2 jmin2_def)

lemma average_unit:
  "inUnitInterval x \<Longrightarrow> inUnitInterval y \<Longrightarrow> inUnitInterval (jdiv (jadd x y) (Num 2))"
  by (cases x; cases y) auto

lemma penalty_unit:
  assumes "isFinite x" "isFinite y" "0 < k"
  shows "inUnitInterval (Math_max [Num 0, jsub (Num 1) (jdiv (Math_abs (jsub x y)) (Num k))])"
  using assms by (cases x; cases y) (auto simp: Math_max2 jmax2_def)

lemma jmin2_Num: "jmin2 (Num x) (Num y) = Num (min x y)"
  by (auto simp: jmin2_def)

lemma ratio_real:
  fixes a b :: real
  assumes "0 < a" "0 < b"
  shows "0 \<le> min (a / b) (b / a) \<and> min (a / b) (b / a) \<le> 1"
proof (cases "a \<le> b")
  case True
  then have "a / b \<le> 1" using assms by simp
  then show ?thesis using assms by (simp add: min_le_iff_disj)
next
  case False
  then have "b / a \<le> 1" using assms by simp
  then show ?thesis using assms by (simp add: min_le_iff_disj)
qed

lemma ratio_unit:
  assumes "jgt t (Num 0)" "isFinite t" "jgt u (Num 0)" "isFinite u"
  shows "inUnitInterval (Math_min [jdiv t u, jdiv u t])"
proof -
  obtain a b where ab: "t = Num a" "u = Num b" "0 < a" "0 < b"
    using assms by (cases t; cases u) (auto simp: jgt_def)
  show ?thesis
    using ratio_real[OF ab(3,4)] ab by (simp add: Math_min2 jmin2_Num)
qed

lemma weighted_unit:
  assumes "inUnitInterval a" "inUnitInterval b" "inUnitInterval c" "inUnitInterval d"
    "inUnitInterval e" "inUnitInterval f"
  shows "inUnitInterval (jadd (jadd (jadd (jadd (jadd
              (jmul a (Num (25 / 100)))
              (jmul b (Num (20 / 100))))
              (jmul c (Num (15 / 100))))
              (jmul d (Num (15 / 100))))
              (jmul e (Num (15 / 100))))
              (jmul f (Num (10 / 100))))"
proof -
  have num: "\<exists>r. x = Num r \<and> 0 \<le> r \<and> r \<le> 1" if "inUnitInterval x" for x
    using that by (cases x) auto
  obtain a' where a: "a = Num a'" "0 \<le> a'" "a' \<le> 1" using num[OF assms(1)] by blast
  obtain b' where b: "b = Num b'" "0 \<le> b'" "b' \<le> 1" using num[OF assms(2)] by blast
  obtain c' where c: "c = Num c'" "0 \<le> c'" "c' \<le> 1" using num[OF assms(3)] by blast
  obtain d' where d: "d = Num d'" "0 \<le> d'" "d' \<le> 1" using num[OF assms(4)] by blast
  obtain e' where e: "e = Num e'" "0 \<le> e'" "e' \<le> 1" using num[OF assms(5)] by blast
  obtain f' where f: "f = Num f'" "0 \<le> f'" "f' \<le> 1" using num[OF assms(6)] by blast
  show ?thesis
    unfolding a(1) b(1) c(1) d(1) e(1) f(1)
    using a(2,3) b(2,3) c(2,3) d(2,3) e(2,3) f(2,3) by simp
qed

lemma dtwSimilarity_unit':
  assumes "\<forall>x\<in>set seq1. isFinite x" "\<forall>x\<in>set seq2. isFinite x"
  shows "inUnitInterval (dtwSimilarity seq1 seq2)"
proof (cases "seq1 = [] \<or> seq2 = []")
  case True
  then show ?thesis by (auto simp: dtwSimilarity_def)
next
  case False
  then show ?thesis using assms by (simp add: dtwSimilarity_unit)
qed

lemma score_f0_eq: "score_f0 (compareProsody t u) =
   dtwSimilarity (voiced (f0_values (f0 t))) (voiced (f0_values (f0 u)))"
  by (simp add: compareProsody_def Let_def)

lemma score_formants_eq: "score_formants (compareProsody t u) =
   jdiv (jadd (jsub (Num 1) (Math_min [Num 1, jdiv (Math_abs
              (jsub (fs_mean (f1 (formants t))) (fs_mean (f1 (formants u))))) (Num 500)]))
            (jsub (Num 1) (Math_min [Num 1, jdiv (Math_abs
              (jsub (fs_mean (f2 (formants t))) (fs_mean (f2 (formants u))))) (Num 800)]))) (Num 2)"
  by (simp add: compareProsody_def Let_def)

lemma score_intensity_eq: "score_intensity (compareProsody t u) =
   dtwSimilarity (normalize (in_values (intensity t))) (normalize (in_values (intensity u)))"
  by (simp add: compareProsody_def Let_def)

lemma score_speakingRate_eq: "score_speakingRate (compareProsody t u) =
   Math_max [Num 0, jsub (Num 1) (jdiv (Math_abs (jsub (syllablesPerSecond (speakingRate t))
                                    (syllablesPerSecond (speakingRate u)))) (Num 3))]"
  by (simp add: compareProsody_def Let_def)

lemma score_pitchRange_eq: "score_pitchRange (compareProsody t u) =
   (case (pitchRange t, pitchRange u) of
               (Some tr, Some ur) \<Rightarrow>
                 Math_max [Num 0, jsub (Num 1) (jdiv (Math_abs (jsub (jsub (pr_max tr) (pr_min tr))
                                                (jsub (pr_max ur) (pr_min ur)))) (Num 100))]
             | _ \<Rightarrow> Num (1 / 2))"
  by (simp add: compareProsody_def Let_def split: option.splits)

lemma score_duration_eq: "score_duration (compareProsody t u) =
   Math_min [jdiv (duration t) (duration u), jdiv (duration u) (duration t)]"
  by (simp add: compareProsody_def Let_def)

lemma score_overall_eq: "score_overall (compareProsody t u) =
   jadd (jadd (jadd (jadd (jadd
              (jmul (score_f0 (compareProsody t u)) (Num (25 / 100)))
              (jmul (score_formants (compareProsody t u)) (Num (20 / 100))))
              (jmul (score_intensity (compareProsody t u)) (Num (15 / 100))))
              (jmul (score_speakingRate (compareProsody t u)) (Num (15 / 100))))
              (jmul (score_pitchRange (compareProsody t u)) (Num (15 / 100))))
              (jmul (score_duration (compareProsody t u)) (Num (10 / 100)))"
  by (simp add: compareProsody_def Let_def)

lemma isFinite_jsub: "isFinite x \<Longrightarrow> isFinite y \<Longrightarrow> isFinite (jsub x y)"
  by (cases x; cases y) auto

lemma unit_f0: "validBundle t \<Longrightarrow> validBundle u \<Longrightarrow> inUnitInterval (score_f0 (compareProsody t u))"
  unfolding score_f0_eq by (rule dtwSimilarity_unit') (simp_all add: validBundle_def)

lemma unit_formants: "validBundle t \<Longrightarrow> validBundle u \<Longrightarrow> inUnitInterval (score_formants (compareProsody t u))"
  unfolding score_formants_eq by (intro average_unit closeness_unit) (simp_all add: validBundle_def)

lemma unit_intensity: "validBundle t \<Longrightarrow> validBundle u \<Longrightarrow> inUnitInterval (score_intensity (compareProsody t u))"
  unfolding score_intensity_eq by (intro dtwSimilarity_unit' normalize_finite) (simp_all add: validBundle_def)

lemma unit_speakingRate: "validBundle t \<Longrightarrow> validBundle u \<Longrightarrow> inUnitInterval (score_speakingRate (compareProsody t u))"
  unfolding score_speakingRate_eq by (intro penalty_unit) (simp_all add: validBundle_def)

lemma unit_pitchRange: "validBundle t \<Longrightarrow> validBundle u \<Longrightarrow> inUnitInterval (score_pitchRange (compareProsody t u))"
  unfolding score_pitchRange_eq
  by (cases "pitchRange t"; cases "pitchRange u")
     (auto simp: validBundle_def intro!: penalty_unit isFinite_jsub)

lemma unit_duration: "validBundle t \<Longrightarrow> validBundle u \<Longrightarrow> inUnitInterval (score_duration (compareProsody t u))"
  unfolding score_duration_eq by (intro ratio_unit) (simp_all add: validBundle_def)

lemma unit_overall: "validBundle t \<Longrightarrow> validBundle u \<Longrightarrow> inUnitInterval (score_overall (compareProsody t u))"
  unfolding score_overall_eq
  by (intro weighted_unit unit_f0 unit_formants unit_intensity unit_speakingRate unit_pitchRange unit_duration)

section \<open>Properties of the extractors\<close>

subsection \<open>The frame loop\<close>

lemma frameLoop_returns:
  "0 < hopSize \<Longrightarrow> \<exists>starts. frameLoop frameSize hopSize len i = Some starts"
proof (induction "len - (i + frameSize)" arbitrary: i rule: less_induct)
  case less
  show ?case
  proof (cases "i + frameSize < len")
    case True
    then have "len - (i + hopSize + frameSize) < len - (i + frameSize)"
      using less.prems by simp
    from less.hyps[OF this less.prems] obtain rest
      where "frameLoop frameSize hopSize len (i + hopSize) = Some rest" by blast
    then show ?thesis using True by (subst frameLoop.simps) simp
  next
    case False
    then show ?thesis by (subst frameLoop.simps) simp
  qed
qed

lemma frameLoop_short:
  "\<not> i + frameSize < len \<Longrightarrow> frameLoop frameSize hopSize len i = Some []"
  by (subst frameLoop.simps) simp

lemma frameLoop_diverges:
  "i + frameSize < len \<Longrightarrow> frameLoop frameSize 0 len i = None"
proof (rule ccontr)
  assume a: "i + frameSize < len" and "frameLoop frameSize 0 len i \<noteq> None"
  then obtain y where y: "frameLoop frameSize 0 len i = Some y" by auto
  have "\<not> (0 = (0::nat) \<and> i + frameSize < len)"
  proof (rule frameLoop.raw_induct[where P = "\<lambda>fs h l j z. \<not> (h = 0 \<and> j + fs < l)", OF _ y])
    fix f :: "nat \<Rightarrow> nat \<Rightarrow> nat \<Rightarrow> nat \<Rightarrow> nat list option" and fs h l j z
    assume ih: "\<And>h l j b y. f h l j b = Some y \<Longrightarrow> \<not> (l = 0 \<and> b + h < j)"
      and eq: "(if j + fs < l then Option.bind (f fs h l (j + h)) (\<lambda>rest. Some (j # rest)) else Some []) = Some z"
    show "\<not> (h = 0 \<and> j + fs < l)"
    proof
      assume c: "h = 0 \<and> j + fs < l"
      with eq obtain rest where "f fs 0 l j = Some rest"
        by (auto simp: bind_eq_Some_conv)
      from ih[OF this] c show False by simp
    qed
  qed
  with a show False by simp
qed

lemma frameLoop_grid:
  "frameLoop frameSize hopSize len i = Some starts \<Longrightarrow>
   k < length starts \<Longrightarrow> starts ! k = i + k * hopSize \<and> starts ! k + frameSize < len"
proof (induction starts arbitrary: i k)
  case Nil
  then show ?case by simp
next
  case (Cons a starts)
  from Cons.prems(1) have c: "i + frameSize < len"
    by (subst (asm) frameLoop.simps) (auto split: if_splits)
  with Cons.prems(1) have a: "a = i" and r: "frameLoop frameSize hopSize len (i + hopSize) = Some starts"
    by (subst (asm) frameLoop.simps, auto simp: bind_eq_Some_conv)+
  show ?case
  proof (cases k)
    case 0
    then show ?thesis using a c by simp
  next
    case (Suc k')
    then have "k' < length starts" using Cons.prems(2) by simp
    from Cons.IH[OF r this] show ?thesis using Suc by (simp add: algebra_simps)
  qed
qed

subsection \<open>A silent frame is unvoiced\<close>

lemma slice_replicate: "slice (replicate n x) i j = replicate (min (j - i) (n - i)) x"
  by (simp add: slice_def)

lemma fold_fixed:
  "(\<And>i. i \<in> set xs \<Longrightarrow> f i s = s) \<Longrightarrow> fold f xs s = s"
  by (induction xs) simp_all

lemma yinDiffAt_silent: "yinDiffAt (replicate n (Num 0)) tau = Num 0"
  unfolding yinDiffAt_def
  by (rule fold_fixed) (simp add: elemAt_def Let_def less_diff_conv)

lemma yinDiff_silent: "yinDiff (replicate n (Num 0)) maxLag = replicate maxLag (Num 0)"
  unfolding yinDiff_def
  by (rule fold_fixed) (simp add: yinDiffAt_silent list_eq_iff_nth_eq nth_list_update)

lemma yinCmndf_silent_aux:
  "k \<le> maxLag \<Longrightarrow>
   fold (\<lambda>tau (runningSum, cmndf).
           let runningSum' = jadd runningSum (elemAt (replicate maxLag (Num 0)) tau)
           in (runningSum',
               cmndf[tau := jdiv (elemAt (replicate maxLag (Num 0)) tau) (jdiv runningSum' (Num (real tau)))]))
        [1..<k] (Num 0, (replicate maxLag (Num 0))[0 := Num 1])
   = (Num 0, silentCmndf maxLag k)"
proof (induction k)
  case 0
  show ?case
    by (auto simp: silentCmndf_def list_eq_iff_nth_eq nth_list_update)
next
  case (Suc k)
  show ?case
  proof (cases "k = 0")
    case True
    then show ?thesis
      by (auto simp: silentCmndf_def list_eq_iff_nth_eq nth_list_update)
  next
    case False
    then have "[1..<Suc k] = [1..<k] @ [k]" by simp
    moreover have "fold (\<lambda>tau (runningSum, cmndf).
           let runningSum' = jadd runningSum (elemAt (replicate maxLag (Num 0)) tau)
           in (runningSum',
               cmndf[tau := jdiv (elemAt (replicate maxLag (Num 0)) tau) (jdiv runningSum' (Num (real tau)))]))
        [1..<k] (Num 0, (replicate maxLag (Num 0))[0 := Num 1]) = (Num 0, silentCmndf maxLag k)"
      using Suc by simp
    moreover have "(silentCmndf maxLag k)[k := NaN] = silentCmndf maxLag (Suc k)"
      using Suc.prems False
      by (auto simp: silentCmndf_def list_eq_iff_nth_eq nth_list_update)
    ultimately show ?thesis
      using Suc.prems False by (simp add: elemAt_def Let_def)
  qed
qed

lemma yinCmndf_silent: "yinCmndf (replicate maxLag (Num 0)) maxLag = silentCmndf maxLag maxLag"
  unfolding yinCmndf_def yinCmndf_silent_aux[OF le_refl] by simp

lemma silentCmndf_above: "\<not> jlt (elemAt (silentCmndf maxLag maxLag) t) threshold"
  by (simp add: elemAt_def silentCmndf_def threshold_def)

lemma yinScan_no_candidate:
  "(\<And>t. \<not> jlt (elemAt cmndf t) threshold) \<Longrightarrow> int (yinScan cmndf maxLag tau) \<ge> int maxLag - 1"
proof (induction cmndf maxLag tau rule: yinScan.induct)
  case (1 cmndf maxLag tau)
  show ?case
  proof (cases "int tau < int maxLag - 1")
    case True
    then show ?thesis using 1 by (subst yinScan.simps) simp
  next
    case False
    then show ?thesis by (subst yinScan.simps) simp
  qed
qed

lemma yinPitchDetection_silent:
  "yinPitchDetection (replicate n (Num 0)) sampleRate minLag maxLag = Num 0"
  using yinScan_no_candidate[of "silentCmndf maxLag maxLag" maxLag minLag, OF silentCmndf_above]
  by (simp add: yinPitchDetection_def Let_def yinDiff_silent yinCmndf_silent)

lemma extractF0Contour_silent:
  assumes "extractF0Contour (replicate n (Num 0)) sampleRate = Some c"
  shows "\<forall>v\<in>set (f0_values c). v = Num 0"
  using assms
  by (auto simp: extractF0Contour_def Let_def bind_eq_Some_conv slice_replicate yinPitchDetection_silent)

lemma hopSizeOf_eq: "hopSizeOf sampleRate = sampleRate div 100"
proof -
  have "real sampleRate * (10 / 1000) = real sampleRate / real 100" by simp
  then show ?thesis
    unfolding hopSizeOf_def by (simp only: floor_divide_of_nat_eq nat_int)
qed

lemma frameSizeOf_eq: "frameSizeOf sampleRate = sampleRate div 40"
proof -
  have "real sampleRate * (25 / 1000) = real sampleRate / real 40" by simp
  then show ?thesis
    unfolding frameSizeOf_def by (simp only: floor_divide_of_nat_eq nat_int)
qed

subsection \<open>The three contours\<close>

lemma extractF0Contour_eq:
  "extractF0Contour samples sr =
   map_option (\<lambda>starts. \<lparr>f0_values = map (\<lambda>i. yinPitchDetection (slice samples i (i + frameSizeOf sr))
                                         sr (nat \<lfloor>real sr / 400\<rfloor>) (nat \<lfloor>real sr / 50\<rfloor>)) starts,
                 f0_times = map (frameTime sr) starts,
                 f0_frameRate = Num (1000 / 10)\<rparr>)
      (frameLoop (frameSizeOf sr) (hopSizeOf sr) (length samples) 0)"
  by (cases "frameLoop (frameSizeOf sr) (hopSizeOf sr) (length samples) 0")
     (simp_all add: extractF0Contour_def Let_def)

lemma extractFormants_eq:
  "extractFormants samples sr =
   map_option (\<lambda>starts. \<lparr>f1 = formantSeriesOf (map (\<lambda>i. slotOrZero (frameFormants samples sr i) 0) starts),
                    f2 = formantSeriesOf (map (\<lambda>i. slotOrZero (frameFormants samples sr i) 1) starts),
                    f3 = formantSeriesOf (map (\<lambda>i. slotOrZero (frameFormants samples sr i) 2) starts),
                    fm_times = map (frameTime sr) starts\<rparr>)
      (frameLoop (frameSizeOf sr) (hopSizeOf sr) (length samples) 0)"
  by (cases "frameLoop (frameSizeOf sr) (hopSizeOf sr) (length samples) 0")
     (simp_all add: extractFormants_def Let_def)

lemma extractIntensity_eq:
  "extractIntensity samples sr =
   map_option (\<lambda>starts. \<lparr>in_values = map (\<lambda>i. frameDB (slice samples i (i + frameSizeOf sr))) starts,
                    in_times = map (frameTime sr) starts,
                    in_mean = mean (map (\<lambda>i. frameDB (slice samples i (i + frameSizeOf sr))) starts),
                    in_range = jsub (Math_max (map (\<lambda>i. frameDB (slice samples i (i + frameSizeOf sr))) starts))
                                    (Math_min (map (\<lambda>i. frameDB (slice samples i (i + frameSizeOf sr))) starts))\<rparr>)
      (frameLoop (frameSizeOf sr) (hopSizeOf sr) (length samples) 0)"
  by (cases "frameLoop (frameSizeOf sr) (hopSizeOf sr) (length samples) 0")
     (simp_all add: extractIntensity_def Let_def)

lemma frameLoop_cases:
  obtains (diverges) "hopSize = 0" "i + frameSize < len" "frameLoop frameSize hopSize len i = None"
  | (returns) starts where "frameLoop frameSize hopSize len i = Some starts"
proof (cases "hopSize = 0 \<and> i + frameSize < len")
  case True
  then show ?thesis using frameLoop_diverges[of i frameSize len] diverges by simp
next
  case False
  then have "\<exists>starts. frameLoop frameSize hopSize len i = Some starts"
    using frameLoop_returns[of hopSize frameSize len i] frameLoop_short[of i frameSize len hopSize]
    by auto
  then show ?thesis using returns by blast
qed

subsection \<open>The aggregator\<close>

lemma estimateSpeakingRate_eq:
  "estimateSpeakingRate samples sr =
   map_option (\<lambda>intensity.
       \<lparr>syllablesPerSecond = jdiv (Num (real (length (filter (\<lambda>i.
              jgt (elemAt (movingAverage (in_values intensity) 5) i) (elemAt (movingAverage (in_values intensity) 5) (i - 1)) \<and>
              jgt (elemAt (movingAverage (in_values intensity) 5) i) (elemAt (movingAverage (in_values intensity) 5) (i + 1)) \<and>
              jgt (elemAt (movingAverage (in_values intensity) 5) i) (in_mean intensity))
              [1..<length (movingAverage (in_values intensity) 5) - 1]))))
            (jdiv (Num (real (length samples))) (Num (real sr))),
        estimatedSyllables = length (filter (\<lambda>i.
              jgt (elemAt (movingAverage (in_values intensity) 5) i) (elemAt (movingAverage (in_values intensity) 5) (i - 1)) \<and>
              jgt (elemAt (movingAverage (in_values intensity) 5) i) (elemAt (movingAverage (in_values intensity) 5) (i + 1)) \<and>
              jgt (elemAt (movingAverage (in_values intensity) 5) i) (in_mean intensity))
              [1..<length (movingAverage (in_values intensity) 5) - 1]),
        sr_duration = jdiv (Num (real (length samples))) (Num (real sr))\<rparr>)
     (extractIntensity samples sr)"
  by (cases "extractIntensity samples sr") (simp_all add: estimateSpeakingRate_def Let_def)

lemma analyzeAudio_decode_error:
  "decodeAudioData blob = Inl e \<Longrightarrow> analyzeAudio decodeAudioData sr blob = Some (Inl e)"
  by (simp add: analyzeAudio_def)

lemma analyzeAudio_no_own_error:
  "decodeAudioData blob = Inr buf \<Longrightarrow> analyzeAudio decodeAudioData sr blob \<noteq> Some (Inl e)"
  by (auto simp: analyzeAudio_def Let_def bind_eq_Some_conv)

lemma analyzeAudio_returns:
  assumes "decodeAudioData blob = Inr buf"
    and "frameLoop (frameSizeOf sr) (hopSizeOf sr) (length (channelData0 buf)) 0 = Some starts"
  shows "\<exists>b. analyzeAudio decodeAudioData sr blob = Some (Inr b) \<and>
             extractF0Contour (channelData0 buf) sr = Some (f0 b) \<and>
             extractFormants (channelData0 buf) sr = Some (formants b) \<and>
             extractIntensity (channelData0 buf) sr = Some (intensity b) \<and>
             estimateSpeakingRate (channelData0 buf) sr = Some (speakingRate b) \<and>
             duration b = ab_duration buf \<and>
             pitchRange b = pitchRangeOf (f0_values (f0 b))"
  using assms
  by (simp add: analyzeAudio_def Let_def extractF0Contour_eq extractFormants_eq
        estimateSpeakingRate_eq extractIntensity_eq)

lemma analyzeAudio_bundle:
  assumes "analyzeAudio decodeAudioData sr blob = Some (Inr b)"
  shows "\<exists>buf. decodeAudioData blob = Inr buf \<and>
             extractF0Contour (channelData0 buf) sr = Some (f0 b) \<and>
             extractFormants (channelData0 buf) sr = Some (formants b) \<and>
             extractIntensity (channelData0 buf) sr = Some (intensity b) \<and>
             estimateSpeakingRate (channelData0 buf) sr = Some (speakingRate b) \<and>
             duration b = ab_duration buf \<and>
             pitchRange b = pitchRangeOf (f0_values (f0 b))"
proof (cases "decodeAudioData blob")
  case (Inl e)
  then show ?thesis using assms by (simp add: analyzeAudio_def)
next
  case (Inr buf)
  then show ?thesis using assms
    by (auto simp: analyzeAudio_def Let_def bind_eq_Some_conv)
qed

lemma voiced_silent: "\<forall>v\<in>set vs. v = Num 0 \<Longrightarrow> voiced vs = []"
  by (induction vs) (simp_all add: voiced_def jgt_def)

lemma pitchRangeOf_silent: "\<forall>v\<in>set vs. v = Num 0 \<Longrightarrow> pitchRangeOf vs = None"
  by (simp add: pitchRangeOf_def voiced_silent)

lemma hop_positive: "100 \<le> sr \<Longrightarrow> 0 < hopSizeOf sr"
  unfolding hopSizeOf_eq by (simp add: div_greater_zero_iff)

lemma empty_buffer:
  assumes "decodeAudioData blob = Inr buf" "channelData0 buf = []"
  shows "\<exists>b. analyzeAudio decodeAudioData sr blob = Some (Inr b) \<and> f0_values (f0 b) = [] \<and>
             in_values (intensity b) = [] \<and> pitchRange b = None"
proof -
  have st: "frameLoop (frameSizeOf sr) (hopSizeOf sr) (length (channelData0 buf)) 0 = Some []"
    using assms(2) by (simp add: frameLoop_short)
  from analyzeAudio_returns[of decodeAudioData blob buf sr "[]", OF assms(1) st] obtain b where
    b: "analyzeAudio decodeAudioData sr blob = Some (Inr b)"
       "extractF0Contour (channelData0 buf) sr = Some (f0 b)"
       "extractIntensity (channelData0 buf) sr = Some (intensity b)"
       "pitchRange b = pitchRangeOf (f0_values (f0 b))"
    by blast
  have "f0_values (f0 b) = []" "in_values (intensity b) = []"
    using b(2)[symmetric] b(3)[symmetric] st by (auto simp: extractF0Contour_eq extractIntensity_eq)
  then show ?thesis using b by (simp add: pitchRangeOf_def voiced_def)
qed

subsection \<open>Formant candidates and their order\<close>

lemma candidate_origin:
  assumes "c \<in> set (formantCandidates roots sr)"
  shows "\<exists>rt\<in>set roots. jgt (cimag rt) (Num 0) \<and> freq c = rootFreq rt sr \<and>
           bandwidth c = rootBandwidth rt sr \<and>
           jgt (freq c) (Num 200) \<and> jlt (freq c) (Num 5000) \<and> jlt (bandwidth c) (Num 500)"
  using assms
  by (auto simp: formantCandidates_def Let_def split: if_splits)

lemma between_finite:
  "jgt x (Num lo) \<Longrightarrow> jlt x (Num hi) \<Longrightarrow> \<exists>f. x = Num f \<and> lo < f \<and> f < hi"
  by (cases x) (auto simp: jgt_def)

lemma candidate_freq:
  assumes "c \<in> set (formantCandidates roots sr)"
  shows "\<exists>f. freq c = Num f \<and> 200 < f \<and> f < 5000"
  using candidate_origin[OF assms] between_finite[of "freq c" 200 5000] by auto

lemma insertBy_insort:
  assumes "isFinite (freq x)" "\<forall>y\<in>set ys. isFinite (freq y)"
  shows "map freqVal (insertBy (\<lambda>a b. jsub (freq a) (freq b)) x ys) =
         insort (freqVal x) (map freqVal ys)"
  using assms
proof (induction ys)
  case Nil
  then show ?case by simp
next
  case (Cons y ys)
  obtain a b where ab: "freq x = Num a" "freq y = Num b"
    using Cons.prems by (auto simp: isFinite_iff)
  show ?case using Cons ab by (auto simp: jgt_def freqVal_def)
qed

lemma set_insertBy: "set (insertBy cmp x ys) = insert x (set ys)"
  by (induction ys) auto

lemma set_sortBy: "set (sortBy cmp xs) = set xs"
  unfolding sortBy_def by (induction xs) (simp_all add: set_insertBy)

lemma sortBy_sort:
  assumes "\<forall>x\<in>set xs. isFinite (freq x)"
  shows "map freqVal (sortBy (\<lambda>a b. jsub (freq a) (freq b)) xs) = sort (map freqVal xs)"
  using assms
proof (induction xs)
  case Nil
  then show ?case by (simp add: sortBy_def)
next
  case (Cons x xs)
  have "sortBy (\<lambda>a b. jsub (freq a) (freq b)) (x # xs) =
        insertBy (\<lambda>a b. jsub (freq a) (freq b)) x (sortBy (\<lambda>a b. jsub (freq a) (freq b)) xs)"
    by (simp add: sortBy_def)
  then show ?case
    using Cons by (simp add: insertBy_insort set_sortBy)
qed

lemma finite_as_Num: "\<forall>x\<in>set xs. isFinite (freq x) \<Longrightarrow> map freq xs = map Num (map freqVal xs)"
  by (induction xs) (auto simp: isFinite_iff freqVal_def)

lemma lpcToFormants_sorted:
  "lpcToFormants lpcCoeffs sr =
   map Num (take 3 (sort (map freqVal (formantCandidates (findPolynomialRoots lpcCoeffs) sr))))"
proof -
  let ?cands = "formantCandidates (findPolynomialRoots lpcCoeffs) sr"
  let ?sorted = "sortBy (\<lambda>a b. jsub (freq a) (freq b)) ?cands"
  have fin: "\<forall>c\<in>set ?cands. isFinite (freq c)"
    using candidate_freq by (fastforce simp: isFinite_iff)
  then have "\<forall>c\<in>set (take 3 ?sorted). isFinite (freq c)"
    by (meson in_set_takeD set_sortBy[THEN equalityD1, THEN subsetD])
  then have "map freq (take 3 ?sorted) = map Num (map freqVal (take 3 ?sorted))"
    by (rule finite_as_Num)
  also have "\<dots> = map Num (take 3 (map freqVal ?sorted))"
    by (simp add: take_map)
  also have "\<dots> = map Num (take 3 (sort (map freqVal ?cands)))"
    using sortBy_sort[OF fin] by simp
  finally show ?thesis
    by (simp add: lpcToFormants_def Let_def slice_def)
qed

lemma slots_of_formants:
  assumes "\<forall>f\<in>set fs. f \<noteq> 0" "length fs \<le> 3"
  shows "[slotOrZero (map Num fs) 0, slotOrZero (map Num fs) 1, slotOrZero (map Num fs) 2] =
         map Num fs @ replicate (3 - length fs) (Num 0)"
proof (cases fs)
  case Nil
  then show ?thesis by (simp add: slotOrZero_def numeral_3_eq_3)
next
  case c1: (Cons a r1)
  show ?thesis
  proof (cases r1)
    case Nil
    then show ?thesis using c1 assms(1)
      by (simp add: slotOrZero_def orElse_def truthy_def numeral_3_eq_3)
  next
    case c2: (Cons b r2)
    show ?thesis
    proof (cases r2)
      case Nil
      then show ?thesis using c1 c2 assms(1)
        by (simp add: slotOrZero_def orElse_def truthy_def numeral_3_eq_3)
    next
      case c3: (Cons c r3)
      then have "r3 = []" using c1 c2 assms(2) by simp
      then show ?thesis using c1 c2 c3 assms(1)
        by (simp add: slotOrZero_def orElse_def truthy_def)
    qed
  qed
qed

lemma candidate_complete:
  assumes "rt \<in> set roots" "jgt (cimag rt) (Num 0)" "jgt (rootFreq rt sr) (Num 200)"
    "jlt (rootFreq rt sr) (Num 5000)" "jlt (rootBandwidth rt sr) (Num 500)"
  shows "\<lparr>freq = rootFreq rt sr, bandwidth = rootBandwidth rt sr\<rparr> \<in> set (formantCandidates roots sr)"
  using assms by (auto simp: formantCandidates_def Let_def intro!: bexI[of _ rt])

subsection \<open>What the extractors compute is finite\<close>

lemma sumArr_finite: "\<forall>x\<in>set xs. isFinite x \<Longrightarrow> isFinite (sumArr xs)"
proof -
  have "isFinite acc \<Longrightarrow> \<forall>x\<in>set xs. isFinite x \<Longrightarrow> isFinite (foldl jadd acc xs)" for acc
    by (induction xs arbitrary: acc) (auto simp: isFinite_iff)
  then show "\<forall>x\<in>set xs. isFinite x \<Longrightarrow> isFinite (sumArr xs)"
    by (simp add: sumArr_def)
qed

lemma mean_finite: "\<forall>x\<in>set xs. isFinite x \<Longrightarrow> isFinite (mean xs)"
  using sumArr_finite[of xs] by (cases xs) (auto simp: mean_def isFinite_iff)

lemma voiced_subset: "set (voiced xs) \<subseteq> set xs"
  by (auto simp: voiced_def)

lemma slotOrZero_finite: "\<forall>x\<in>set fs. isFinite x \<Longrightarrow> isFinite (slotOrZero fs k)"
  by (auto simp: slotOrZero_def orElse_def)

lemma frameFormants_finite: "\<forall>x\<in>set (frameFormants samples sr i). isFinite x"
  by (simp add: frameFormants_def Let_def lpcToFormants_sorted)

lemma formant_mean_finite:
  "isFinite (fs_mean (formantSeriesOf (map (\<lambda>i. slotOrZero (frameFormants samples sr i) k) starts)))"
  unfolding formantSeriesOf_def
  by (simp, rule mean_finite)
     (use voiced_subset slotOrZero_finite[OF frameFormants_finite] in fastforce)

lemma energy_nonneg:
  assumes "\<forall>x\<in>set frame. isFinite x"
  shows "m \<le> length frame \<Longrightarrow>
         \<exists>r\<ge>0. fold (\<lambda>j sum. jadd sum (jmul (elemAt frame j) (elemAt frame j))) [0..<m] (Num 0) = Num r"
proof (induction m)
  case 0
  then show ?case by simp
next
  case (Suc m)
  then obtain r where r: "0 \<le> r"
    "fold (\<lambda>j sum. jadd sum (jmul (elemAt frame j) (elemAt frame j))) [0..<m] (Num 0) = Num r"
    by auto
  have "isFinite (elemAt frame m)" using assms Suc.prems by (simp add: elemAt_finite)
  then obtain a where "elemAt frame m = Num a" by (auto simp: isFinite_iff)
  then show ?case using r by (auto intro!: exI[of _ "r + a * a"])
qed

lemma frameDB_finite:
  assumes "\<forall>x\<in>set frame. isFinite x" "frame \<noteq> []"
  shows "isFinite (frameDB frame)"
proof -
  obtain r where r: "0 \<le> r"
    "fold (\<lambda>j sum. jadd sum (jmul (elemAt frame j) (elemAt frame j))) [0..<length frame] (Num 0) = Num r"
    using energy_nonneg[OF assms(1), of "length frame"] by auto
  have n: "real (length frame) \<noteq> 0" using assms(2) by simp
  have q: "\<not> r / real (length frame) < 0"
    using r(1) by (simp add: not_less)
  have "0 < sqrt (r / real (length frame)) + 1 / 10 ^ 10"
    using r(1) by (simp add: add_nonneg_pos)
  then show ?thesis
    unfolding frameDB_def Let_def r(2) using n q by simp
qed

subsection \<open>A bundle against itself\<close>

lemma frameLoop_hop:
  assumes "frameLoop frameSize hopSize len i = Some starts" "starts \<noteq> []"
  shows "0 < hopSize \<and> i + frameSize < len"
proof -
  have c: "i + frameSize < len"
    using assms by (subst (asm) frameLoop.simps) (auto split: if_splits)
  then show ?thesis using frameLoop_diverges[OF c] assms(1) by (cases hopSize) auto
qed

lemma frameLoop_start_in_range:
  assumes "frameLoop frameSize hopSize len 0 = Some starts" "i \<in> set starts"
  shows "i + frameSize < len"
proof -
  obtain k where "k < length starts" "starts ! k = i"
    using assms(2) by (auto simp: in_set_conv_nth)
  then show ?thesis using frameLoop_grid[OF assms(1), of k] by simp
qed

lemma slice_props:
  assumes "i + n < length xs"
  shows "length (slice xs i (i + n)) = n" "set (slice xs i (i + n)) \<subseteq> set xs"
  using assms by (auto simp: slice_def dest: in_set_takeD in_set_dropD)

lemma self_difference: "isFinite x \<Longrightarrow> Math_abs (jsub x x) = Num 0"
  by (cases x) auto

lemma self_ratio: "isFinite d \<Longrightarrow> jgt d (Num 0) \<Longrightarrow> jdiv d d = Num 1"
  by (cases d) (auto simp: jgt_def)

lemma self_scores:
  assumes "validBundle b" "voiced (f0_values (f0 b)) \<noteq> []" "pitchRange b \<noteq> None"
    "in_values (intensity b) \<noteq> []"
  shows "score_f0 (compareProsody b b) = Num 1"
    "score_formants (compareProsody b b) = Num 1"
    "score_intensity (compareProsody b b) = Num 1"
    "score_speakingRate (compareProsody b b) = Num 1"
    "score_pitchRange (compareProsody b b) = Num 1"
    "score_duration (compareProsody b b) = Num 1"
proof -
  show "score_f0 (compareProsody b b) = Num 1"
    unfolding score_f0_eq using assms(1,2) by (intro dtwSimilarity_self) (simp_all add: validBundle_def)
  show "score_formants (compareProsody b b) = Num 1"
    unfolding score_formants_eq using assms(1)
    by (simp add: validBundle_def self_difference Math_min2 jmin2_def)
  have "normalize (in_values (intensity b)) \<noteq> []"
    using assms(4) by (metis length_normalize length_0_conv)
  then show "score_intensity (compareProsody b b) = Num 1"
    unfolding score_intensity_eq using assms(1)
    by (intro dtwSimilarity_self normalize_finite) (simp_all add: validBundle_def)
  show "score_speakingRate (compareProsody b b) = Num 1"
    unfolding score_speakingRate_eq using assms(1)
    by (simp add: validBundle_def self_difference Math_max2 jmax2_def)
  obtain r where r: "pitchRange b = Some r" using assms(3) by auto
  then have "isFinite (jsub (pr_max r) (pr_min r))"
    using assms(1) by (simp add: validBundle_def isFinite_jsub)
  then show "score_pitchRange (compareProsody b b) = Num 1"
    unfolding score_pitchRange_eq r
    by (simp add: self_difference Math_max2 jmax2_def)
  show "score_duration (compareProsody b b) = Num 1"
    unfolding score_duration_eq using assms(1)
    by (simp add: validBundle_def self_ratio Math_min2 jmin2_def)
qed

lemma self_overall:
  assumes "validBundle b" "voiced (f0_values (f0 b)) \<noteq> []" "pitchRange b \<noteq> None"
    "in_values (intensity b) \<noteq> []"
  shows "score_overall (compareProsody b b) = Num 1"
  unfolding score_overall_eq self_scores[OF assms] by simp

lemma analysed_frames:
  assumes "analyzeAudio decodeAudioData sr blob = Some (Inr b)"
  shows "\<exists>buf starts. decodeAudioData blob = Inr buf \<and>
           frameLoop (frameSizeOf sr) (hopSizeOf sr) (length (channelData0 buf)) 0 = Some starts \<and>
           f0_values (f0 b) = map (\<lambda>i. yinPitchDetection (slice (channelData0 buf) i (i + frameSizeOf sr))
                                         sr (nat \<lfloor>real sr / 400\<rfloor>) (nat \<lfloor>real sr / 50\<rfloor>)) starts \<and>
           formants b = \<lparr>f1 = formantSeriesOf (map (\<lambda>i. slotOrZero (frameFormants (channelData0 buf) sr i) 0) starts),
                    f2 = formantSeriesOf (map (\<lambda>i. slotOrZero (frameFormants (channelData0 buf) sr i) 1) starts),
                    f3 = formantSeriesOf (map (\<lambda>i. slotOrZero (frameFormants (channelData0 buf) sr i) 2) starts),
                    fm_times = map (frameTime sr) starts\<rparr> \<and>
           in_values (intensity b) = map (\<lambda>i. frameDB (slice (channelData0 buf) i (i + frameSizeOf sr))) starts \<and>
           (\<exists>p. syllablesPerSecond (speakingRate b) =
                 jdiv (Num (real p)) (jdiv (Num (real (length (channelData0 buf)))) (Num (real sr)))) \<and>
           duration b = ab_duration buf \<and>
           pitchRange b = pitchRangeOf (f0_values (f0 b))"
proof -
  from analyzeAudio_bundle[OF assms] obtain buf where
    buf: "decodeAudioData blob = Inr buf"
      "extractF0Contour (channelData0 buf) sr = Some (f0 b)"
      "extractFormants (channelData0 buf) sr = Some (formants b)"
      "extractIntensity (channelData0 buf) sr = Some (intensity b)"
      "estimateSpeakingRate (channelData0 buf) sr = Some (speakingRate b)"
      "duration b = ab_duration buf"
      "pitchRange b = pitchRangeOf (f0_values (f0 b))"
    by blast
  obtain starts where
    st: "frameLoop (frameSizeOf sr) (hopSizeOf sr) (length (channelData0 buf)) 0 = Some starts"
    using buf(2)
    by (cases "frameLoop (frameSizeOf sr) (hopSizeOf sr) (length (channelData0 buf)) 0")
       (simp_all add: extractF0Contour_eq)
  have 1: "f0_values (f0 b) = map (\<lambda>i. yinPitchDetection (slice (channelData0 buf) i (i + frameSizeOf sr))
                                         sr (nat \<lfloor>real sr / 400\<rfloor>) (nat \<lfloor>real sr / 50\<rfloor>)) starts"
    using buf(2)[symmetric] st by (simp add: extractF0Contour_eq)
  have 2: "formants b = \<lparr>f1 = formantSeriesOf (map (\<lambda>i. slotOrZero (frameFormants (channelData0 buf) sr i) 0) starts),
                    f2 = formantSeriesOf (map (\<lambda>i. slotOrZero (frameFormants (channelData0 buf) sr i) 1) starts),
                    f3 = formantSeriesOf (map (\<lambda>i. slotOrZero (frameFormants (channelData0 buf) sr i) 2) starts),
                    fm_times = map (frameTime sr) starts\<rparr>"
    using buf(3)[symmetric] st by (simp add: extractFormants_eq)
  have 3: "in_values (intensity b) = map (\<lambda>i. frameDB (slice (channelData0 buf) i (i + frameSizeOf sr))) starts"
    using buf(4)[symmetric] st by (simp add: extractIntensity_eq)
  have 4: "\<exists>p. syllablesPerSecond (speakingRate b) =
                 jdiv (Num (real p)) (jdiv (Num (real (length (channelData0 buf)))) (Num (real sr)))"
    using buf(5)[symmetric] buf(4) by (auto simp: estimateSpeakingRate_eq)
  show ?thesis using buf(1,6,7) st 1 2 3 4 by blast
qed

lemma analysed_bundle_valid:
  assumes "analyzeAudio decodeAudioData sr blob = Some (Inr b)"
    and "decodeAudioData blob = Inr buf"
    and "channelData0 buf \<noteq> []"
    and "\<forall>x\<in>set (channelData0 buf). isFinite x"
    and "jgt (ab_duration buf) (Num 0)" "isFinite (ab_duration buf)"
    and "\<forall>v\<in>set (voiced (f0_values (f0 b))). isFinite v"
  shows "validBundle b"
proof -
  from analysed_frames[OF assms(1)] assms(2) obtain starts p where
    st: "frameLoop (frameSizeOf sr) (hopSizeOf sr) (length (channelData0 buf)) 0 = Some starts"
    and fm: "formants b = \<lparr>f1 = formantSeriesOf (map (\<lambda>i. slotOrZero (frameFormants (channelData0 buf) sr i) 0) starts),
                    f2 = formantSeriesOf (map (\<lambda>i. slotOrZero (frameFormants (channelData0 buf) sr i) 1) starts),
                    f3 = formantSeriesOf (map (\<lambda>i. slotOrZero (frameFormants (channelData0 buf) sr i) 2) starts),
                    fm_times = map (frameTime sr) starts\<rparr>"
    and iv: "in_values (intensity b) = map (\<lambda>i. frameDB (slice (channelData0 buf) i (i + frameSizeOf sr))) starts"
    and rate: "syllablesPerSecond (speakingRate b) =
                 jdiv (Num (real p)) (jdiv (Num (real (length (channelData0 buf)))) (Num (real sr)))"
    and dur: "duration b = ab_duration buf"
    and pr: "pitchRange b = pitchRangeOf (f0_values (f0 b))"
    by auto
  have sr: "0 < sr"
  proof (rule ccontr)
    assume "\<not> 0 < sr"
    then have "frameSizeOf sr = 0" "hopSizeOf sr = 0" "0 + 0 < length (channelData0 buf)"
      using assms(3) by (simp_all add: frameSizeOf_eq hopSizeOf_eq)
    then show False using frameLoop_diverges[of 0 0 "length (channelData0 buf)"] st by simp
  qed
  have 1: "isFinite (fs_mean (f1 (formants b)))" "isFinite (fs_mean (f2 (formants b)))"
    unfolding fm by (simp_all add: formant_mean_finite)
  have 2: "\<forall>v\<in>set (in_values (intensity b)). isFinite v"
  proof
    fix v assume "v \<in> set (in_values (intensity b))"
    then obtain i where i: "i \<in> set starts" "v = frameDB (slice (channelData0 buf) i (i + frameSizeOf sr))"
      unfolding iv by auto
    have r: "i + frameSizeOf sr < length (channelData0 buf)"
      using frameLoop_start_in_range[OF st i(1)] .
    have "starts \<noteq> []" using i(1) by auto
    then have "0 < hopSizeOf sr" using frameLoop_hop[OF st] by simp
    then have "0 < frameSizeOf sr"
      by (simp add: hopSizeOf_eq frameSizeOf_eq div_greater_zero_iff)
    then have "slice (channelData0 buf) i (i + frameSizeOf sr) \<noteq> []"
      using slice_props(1)[OF r] by auto
    moreover have "\<forall>x\<in>set (slice (channelData0 buf) i (i + frameSizeOf sr)). isFinite x"
      using slice_props(2)[OF r] assms(4) by blast
    ultimately show "isFinite v" unfolding i(2) by (intro frameDB_finite)
  qed
  have 3: "isFinite (syllablesPerSecond (speakingRate b))"
    unfolding rate using sr assms(3) by simp
  have 4: "case pitchRange b of None \<Rightarrow> True | Some r \<Rightarrow> isFinite (pr_min r) \<and> isFinite (pr_max r)"
    unfolding pr pitchRangeOf_def Let_def
    using assms(7) by (simp add: Math_min_finite Math_max_finite)
  show ?thesis
    unfolding validBundle_def using 1 2 3 4 assms(5,6,7) dur by simp
qed

lemma analysed_counts:
  assumes "analyzeAudio decodeAudioData sr blob = Some (Inr b)"
  shows "length (in_values (intensity b)) = length (f0_values (f0 b))"
    and "pitchRange b = pitchRangeOf (f0_values (f0 b))"
  using analysed_frames[OF assms] by (elim exE conjE, simp)+

lemma unvoiced_self_overall:
  assumes "validBundle b" "voiced (f0_values (f0 b)) = []" "pitchRange b = None"
    "in_values (intensity b) \<noteq> []"
  shows "score_overall (compareProsody b b) = Num (27 / 40)"
proof -
  have 1: "score_f0 (compareProsody b b) = Num 0"
    unfolding score_f0_eq using assms(2) by (simp add: dtwSimilarity_def)
  have 2: "score_formants (compareProsody b b) = Num 1"
    unfolding score_formants_eq using assms(1)
    by (simp add: validBundle_def self_difference Math_min2 jmin2_def)
  have "normalize (in_values (intensity b)) \<noteq> []"
    using assms(4) by (metis length_normalize length_0_conv)
  then have 3: "score_intensity (compareProsody b b) = Num 1"
    unfolding score_intensity_eq using assms(1)
    by (intro dtwSimilarity_self normalize_finite) (simp_all add: validBundle_def)
  have 4: "score_speakingRate (compareProsody b b) = Num 1"
    unfolding score_speakingRate_eq using assms(1)
    by (simp add: validBundle_def self_difference Math_max2 jmax2_def)
  have 5: "score_pitchRange (compareProsody b b) = Num (1 / 2)"
    unfolding score_pitchRange_eq assms(3) by simp
  have 6: "score_duration (compareProsody b b) = Num 1"
    unfolding score_duration_eq using assms(1)
    by (simp add: validBundle_def self_ratio Math_min2 jmin2_def)
  show ?thesis
    unfolding score_overall_eq 1 2 3 4 5 6 by simp
qed

section \<open>The claims\<close>



lemma tone_frames: "frameLoop (frameSizeOf 400) (hopSizeOf 400) (length (channelData0 toneBuffer)) 0 = Some [0]"
  by (simp add: frameLoop.simps frameSizeOf_eq hopSizeOf_eq toneBuffer_def)

lemma tone_pitch:
  "yinPitchDetection [Num 1, Num 0, Num (- 1), Num 0, Num 1, Num 0, Num (- 1), Num 0, Num 1, Num 0]
     400 1 8 = Num (1261600 / 12593)"
  by code_simp


text \<open>
  Claim C2. For two valid bundles (finite feature values, positive duration) every field
  of the score set of \<^verbatim>\<open>compareProsody\<close> lies in \<open>[0, 1]\<close>.
\<close>

theorem scores_in_unit_interval:
  assumes "validBundle t" and "validBundle u"
  shows "inUnitInterval (score_f0 (compareProsody t u)) \<and>
         inUnitInterval (score_formants (compareProsody t u)) \<and>
         inUnitInterval (score_intensity (compareProsody t u)) \<and>
         inUnitInterval (score_speakingRate (compareProsody t u)) \<and>
         inUnitInterval (score_pitchRange (compareProsody t u)) \<and>
         inUnitInterval (score_duration (compareProsody t u)) \<and>
         inUnitInterval (score_overall (compareProsody t u))"
  using assms
  by (intro conjI unit_f0 unit_formants unit_intensity unit_speakingRate unit_pitchRange
        unit_duration unit_overall)

lemma validBundle_voicedBundle: "validBundle voicedBundle"
  by (simp add: validBundle_def voicedBundle_def voiced_def jgt_def)

lemma validBundle_unvoicedBundle: "validBundle unvoicedBundle"
  by (simp add: validBundle_def unvoicedBundle_def voiced_def jgt_def)

theorem scores_in_unit_interval_witness:
  "validBundle voicedBundle \<and> validBundle unvoicedBundle \<and>
   inUnitInterval (score_f0 (compareProsody voicedBundle unvoicedBundle)) \<and>
   inUnitInterval (score_formants (compareProsody voicedBundle unvoicedBundle)) \<and>
   inUnitInterval (score_intensity (compareProsody voicedBundle unvoicedBundle)) \<and>
   inUnitInterval (score_speakingRate (compareProsody voicedBundle unvoicedBundle)) \<and>
   inUnitInterval (score_pitchRange (compareProsody voicedBundle unvoicedBundle)) \<and>
   inUnitInterval (score_duration (compareProsody voicedBundle unvoicedBundle)) \<and>
   inUnitInterval (score_overall (compareProsody voicedBundle unvoicedBundle))"
  using scores_in_unit_interval[OF validBundle_voicedBundle validBundle_unvoicedBundle]
    validBundle_voicedBundle validBundle_unvoicedBundle
  by simp











text \<open>
  Claim C7. If either input sequence of \<^verbatim>\<open>dtwSimilarity\<close> is empty, the similarity is 0;
  in \<^verbatim>\<open>compareProsody\<close>, when the voiced F0 sequence of either bundle is empty, the f0
  score is 0. Both functions are total: the score is a value, never an error.
\<close>

theorem empty_sequence_scores_zero:
  "(seq1 = [] \<or> seq2 = [] \<longrightarrow> dtwSimilarity seq1 seq2 = Num 0) \<and>
   (voiced (f0_values (f0 t)) = [] \<or> voiced (f0_values (f0 u)) = [] \<longrightarrow>
      score_f0 (compareProsody t u) = Num 0)"
  by (auto simp: dtwSimilarity_def score_f0_eq)

theorem empty_sequence_scores_zero_witness:
  "dtwSimilarity [] [Num 1] = Num 0 \<and>
   voiced (f0_values (f0 unvoicedBundle)) = [] \<and>
   score_f0 (compareProsody voicedBundle unvoicedBundle) = Num 0"
  using empty_sequence_scores_zero[of "[]" "[Num 1]" voicedBundle unvoicedBundle]
  by (simp add: unvoicedBundle_def voiced_def jgt_def)



text \<open>
  Claim C10. \<^verbatim>\<open>compareProsody\<close> is symmetric: exchanging the two bundles gives the same
  score set, hence the same value in each dimension and the same overall score.
\<close>

theorem compareProsody_symmetric:
  "compareProsody a b = compareProsody b a"
proof -
  have 1: "score_f0 (compareProsody a b) = score_f0 (compareProsody b a)"
    unfolding score_f0_eq by (rule dtwSimilarity_sym)
  have 2: "score_formants (compareProsody a b) = score_formants (compareProsody b a)"
    unfolding score_formants_eq
    by (simp add: Math_abs_jsub_commute[of "fs_mean (f1 (formants a))"]
        Math_abs_jsub_commute[of "fs_mean (f2 (formants a))"])
  have 3: "score_intensity (compareProsody a b) = score_intensity (compareProsody b a)"
    unfolding score_intensity_eq by (rule dtwSimilarity_sym)
  have 4: "score_speakingRate (compareProsody a b) = score_speakingRate (compareProsody b a)"
    unfolding score_speakingRate_eq
    by (simp add: Math_abs_jsub_commute[of "syllablesPerSecond (speakingRate a)"])
  have 5: "score_pitchRange (compareProsody a b) = score_pitchRange (compareProsody b a)"
  proof (cases "pitchRange a")
    case None
    then show ?thesis by (cases "pitchRange b") (simp_all add: score_pitchRange_eq)
  next
    case (Some ra)
    then show ?thesis
      by (cases "pitchRange b")
         (simp_all add: score_pitchRange_eq Math_abs_jsub_commute[of "jsub (pr_max ra) (pr_min ra)"])
  qed
  have 6: "score_duration (compareProsody a b) = score_duration (compareProsody b a)"
    unfolding score_duration_eq by (simp add: Math_min2 jmin2_commute)
  have 7: "score_overall (compareProsody a b) = score_overall (compareProsody b a)"
    unfolding score_overall_eq by (simp only: 1 2 3 4 5 6)
  show ?thesis
    using 1 2 3 4 5 6 7 by (rule scores.equality) simp
qed

theorem compareProsody_symmetric_witness:
  "compareProsody voicedBundle unvoicedBundle = compareProsody unvoicedBundle voicedBundle"
  using compareProsody_symmetric[of voicedBundle unvoicedBundle] by simp

end
